theory Spec2Isabelle
  imports Complex_Main "HOL-Library.Multiset"
begin

section \<open>Data model (types.ts)\<close>

datatype AnimalType = ELEPHANT | LION | TIGER | LEOPARD | WOLF | DOG | CAT | RAT

datatype PlayerColor = RED | BLUE

text \<open>The field \<open>id\<close> of the source is called \<open>pid\<close>: \<open>id\<close> is HOL's identity function.\<close>

record Piece =
  pid :: string
  type :: AnimalType
  color :: PlayerColor
  rank :: nat

record Cell =
  index :: nat
  piece :: "Piece option"
  isRevealed :: bool

text \<open>\<open>winner: PlayerColor | 'DRAW' | null\<close>; \<open>null\<close> is \<open>None\<close>.\<close>

datatype Winner = Won PlayerColor | DRAW

datatype Controller = HUMAN | AI

text \<open>
  The history holds text lines built from the Chinese names of the animals. A line is kept as
  the event it describes, with the announcement of the winner that \<open>handleMove\<close> appends to it.
\<close>

datatype LogEvent =
    GameStarted
  | Flipped PlayerColor AnimalType
  | Eliminated AnimalType AnimalType
  | Ate AnimalType AnimalType
  | Moved AnimalType

record LogLine =
  event :: LogEvent
  announced :: "PlayerColor option"

record GameState =
  board :: "Cell list"
  turn :: PlayerColor
  winner :: "Winner option"
  redPlayer :: "Controller option"
  bluePlayer :: "Controller option"
  userColor :: "PlayerColor option"
  history :: "LogLine list"

record Move =
  fromIndex :: "nat option"
  toIndex :: nat
  isFlip :: bool

section \<open>Constants (constants.ts)\<close>

definition BOARD_SIZE :: nat where
  "BOARD_SIZE = 4"

definition TOTAL_CELLS :: nat where
  "TOTAL_CELLS = 17"

definition CENTER_INDEX :: nat where
  "CENTER_INDEX = 16"

fun ANIMAL_RANKS :: "AnimalType \<Rightarrow> nat" where
  "ANIMAL_RANKS ELEPHANT = 8"
| "ANIMAL_RANKS LION = 7"
| "ANIMAL_RANKS TIGER = 6"
| "ANIMAL_RANKS LEOPARD = 5"
| "ANIMAL_RANKS WOLF = 4"
| "ANIMAL_RANKS DOG = 3"
| "ANIMAL_RANKS CAT = 2"
| "ANIMAL_RANKS RAT = 1"

text \<open>\<open>Object.values(AnimalType)\<close>: the members of the string enum, in declaration order.\<close>

definition types :: "AnimalType list" where
  "types = [ELEPHANT, LION, TIGER, LEOPARD, WOLF, DOG, CAT, RAT]"

text \<open>The string value of an enum member, as a template literal prints it.\<close>

fun typeString :: "AnimalType \<Rightarrow> string" where
  "typeString ELEPHANT = ''ELEPHANT''"
| "typeString LION = ''LION''"
| "typeString TIGER = ''TIGER''"
| "typeString LEOPARD = ''LEOPARD''"
| "typeString WOLF = ''WOLF''"
| "typeString DOG = ''DOG''"
| "typeString CAT = ''CAT''"
| "typeString RAT = ''RAT''"

text \<open>A counter as a template literal prints it: decimal digits.\<close>

fun decimal :: "nat \<Rightarrow> string" where
  "decimal n =
     (if n < 10 then [''0123456789'' ! n]
      else decimal (n div 10) @ [''0123456789'' ! (n mod 10)])"

declare decimal.simps [simp del]

text \<open>
  The deck is built by one \<open>forEach\<close> over \<open>types\<close> that pushes a red and a blue piece and
  increments \<open>idCounter\<close> after each push. The loop state is the deck and the counter.
\<close>

definition pushPair :: "AnimalType \<Rightarrow> Piece list \<times> nat \<Rightarrow> Piece list \<times> nat" where
  "pushPair t s =
     (case s of (deck, idCounter) \<Rightarrow>
        (deck @
           [\<lparr>pid = ''red-'' @ typeString t @ ''-'' @ decimal idCounter,
              type = t, color = RED, rank = ANIMAL_RANKS t\<rparr>,
            \<lparr>pid = ''blue-'' @ typeString t @ ''-'' @ decimal (idCounter + 1),
              type = t, color = BLUE, rank = ANIMAL_RANKS t\<rparr>],
         idCounter + 2))"

definition INITIAL_DECK :: "Piece list" where
  "INITIAL_DECK = fst (fold pushPair types ([], 0))"

section \<open>Initialization (initGame)\<close>

text \<open>
  \<open>deck[index]\<close> beyond the end of the array is \<open>undefined\<close>, which every later test of
  \<open>cell.piece\<close> treats as no piece.
\<close>

definition elemAt :: "'a list \<Rightarrow> nat \<Rightarrow> 'a option" where
  "elemAt xs i = (if i < length xs then Some (xs ! i) else None)"

text \<open>
  \<open>initGame\<close> sorts a copy of \<open>INITIAL_DECK\<close> with the comparator
  \<open>() => Math.random() - 0.5\<close>. The order that comes out depends on the random numbers drawn and
  on the sorting procedure of the runtime, so the sorted copy is the argument \<open>deck\<close> here.
\<close>

definition newBoard :: "Piece list \<Rightarrow> Cell list" where
  "newBoard deck =
     map (\<lambda>i. if i = CENTER_INDEX then \<lparr>index = i, piece = None, isRevealed = True\<rparr>
              else \<lparr>index = i, piece = elemAt deck i, isRevealed = False\<rparr>)
         [0 ..< TOTAL_CELLS]"

definition initGame :: "Piece list \<Rightarrow> GameState" where
  "initGame deck =
     \<lparr>board = newBoard deck, turn = RED, winner = None, redPlayer = None, bluePlayer = None,
      userColor = None, history = [\<lparr>event = GameStarted, announced = None\<rparr>]\<rparr>"

section \<open>Topology (isAdjacent)\<close>

definition isAdjacent :: "nat \<Rightarrow> nat \<Rightarrow> bool" where
  "isAdjacent idx1 idx2 =
     (if idx1 = CENTER_INDEX then idx2 \<in> set [5, 6, 9, 10]
      else if idx2 = CENTER_INDEX then idx1 \<in> set [5, 6, 9, 10]
      else
        (let x1 = idx1 mod BOARD_SIZE;
             y1 = idx1 div BOARD_SIZE;
             x2 = idx2 mod BOARD_SIZE;
             y2 = idx2 div BOARD_SIZE;
             dx = \<bar>int x1 - int x2\<bar>;
             dy = \<bar>int y1 - int y2\<bar>
         in (dx = 1 \<and> dy = 0) \<or> (dx = 0 \<and> dy = 1)))"

text \<open>The Manhattan distance of two grid indices, with row \<open>i div 4\<close> and column \<open>i mod 4\<close>.\<close>

definition manhattan :: "nat \<Rightarrow> nat \<Rightarrow> int" where
  "manhattan a b = \<bar>int (a mod 4) - int (b mod 4)\<bar> + \<bar>int (a div 4) - int (b div 4)\<bar>"

section \<open>Move generation (getValidMoves)\<close>

text \<open>
  Reading a property of \<open>undefined\<close> throws a TypeError; \<open>board[targetIdx]\<close> is \<open>undefined\<close>
  when \<open>targetIdx\<close> is beyond the end of the array.
\<close>

datatype error = TypeError

text \<open>The list \<open>neighbors\<close> that the callback fills for the cell at \<open>idx\<close>.\<close>

definition neighbors :: "nat \<Rightarrow> nat list" where
  "neighbors idx =
     (if idx \<noteq> CENTER_INDEX then
        (let x = idx mod BOARD_SIZE;
             y = idx div BOARD_SIZE
         in (if x > 0 then [idx - 1] else [])
          @ (if x < 3 then [idx + 1] else [])
          @ (if y > 0 then [idx - 4] else [])
          @ (if y < 3 then [idx + 4] else [])
          @ (if idx \<in> set [5, 6, 9, 10] then [CENTER_INDEX] else []))
      else [5, 6, 9, 10])"

text \<open>The attack logic: three assignments to \<open>canAttack\<close> in sequence, the last one winning.\<close>

definition canAttack :: "Piece \<Rightarrow> Piece \<Rightarrow> bool" where
  "canAttack mine target =
     (let myRank = rank mine;
          targetRank = rank target;
          c0 = False;
          c1 = (if myRank \<ge> targetRank then True else c0);
          c2 = (if type mine = RAT \<and> type target = ELEPHANT then True else c1);
          c3 = (if type mine = ELEPHANT \<and> type target = RAT then False else c2)
      in c3)"

text \<open>
  A \<open>forEach\<close> whose callback pushes moves onto one array: the pushes of all elements in
  order, or the first exception thrown.
\<close>

fun forEachPush :: "('a \<Rightarrow> error + 'b list) \<Rightarrow> 'a list \<Rightarrow> error + 'b list" where
  "forEachPush f [] = Inr []"
| "forEachPush f (x # xs) =
     (case f x of
        Inl e \<Rightarrow> Inl e
      | Inr ys \<Rightarrow> (case forEachPush f xs of Inl e \<Rightarrow> Inl e | Inr zs \<Rightarrow> Inr (ys @ zs)))"

text \<open>The callback of \<open>neighbors.forEach\<close>, for the cell \<open>cell\<close> holding the piece \<open>mine\<close>.\<close>

definition tryTarget :: "Cell list \<Rightarrow> PlayerColor \<Rightarrow> Cell \<Rightarrow> Piece \<Rightarrow> nat \<Rightarrow> error + Move list" where
  "tryTarget cells playerColor cell mine targetIdx =
     (case elemAt cells targetIdx of
        None \<Rightarrow>
          (if targetIdx = CENTER_INDEX \<and> type mine \<noteq> RAT then Inr [] else Inl TypeError)
      | Some targetCell \<Rightarrow>
          (if targetIdx = CENTER_INDEX \<and> (type mine \<noteq> RAT \<or> piece targetCell \<noteq> None) then Inr []
           else if \<not> isRevealed targetCell then Inr []
           else
             (case piece targetCell of
                None \<Rightarrow> Inr [\<lparr>fromIndex = Some (index cell), toIndex = targetIdx, isFlip = False\<rparr>]
              | Some target \<Rightarrow>
                  (if color target \<noteq> playerColor then
                     (if canAttack mine target
                      then Inr [\<lparr>fromIndex = Some (index cell), toIndex = targetIdx, isFlip = False\<rparr>]
                      else Inr [])
                   else Inr []))))"

text \<open>The callback of \<open>board.forEach\<close>.\<close>

definition cellMoves :: "Cell list \<Rightarrow> PlayerColor \<Rightarrow> Cell \<Rightarrow> error + Move list" where
  "cellMoves cells playerColor cell =
     (if \<not> isRevealed cell then Inr [\<lparr>fromIndex = None, toIndex = index cell, isFlip = True\<rparr>]
      else
        (case piece cell of
           None \<Rightarrow> Inr []
         | Some mine \<Rightarrow>
             (if color mine = playerColor
              then forEachPush (tryTarget cells playerColor cell mine) (neighbors (index cell))
              else Inr [])))"

definition getValidMoves :: "Cell list \<Rightarrow> PlayerColor \<Rightarrow> error + Move list" where
  "getValidMoves cells playerColor = forEachPush (cellMoves cells playerColor) cells"

section \<open>Core game logic (handleMove)\<close>

text \<open>
  What a handler leaves behind: \<open>Applied s\<close> when it ran to its end and set the state \<open>s\<close>,
  \<open>Ignored\<close> when it returned early without setting anything, \<open>Threw e s\<close> when it threw
  \<open>e\<close>, the stored state being \<open>s\<close> at that moment.
\<close>

datatype 's outcome = Applied 's | Ignored | Threw error 's

text \<open>
  The assignment of colours on a flip is the one part of \<open>handleMove\<close> in which the two
  versions of the application differ. It yields \<open>nextUserColor\<close>, \<open>nextRedPlayer\<close> and
  \<open>nextBluePlayer\<close>.
\<close>

type_synonym binding = "PlayerColor option \<times> Controller option \<times> Controller option"

definition bindPvP :: "GameState \<Rightarrow> Piece \<Rightarrow> binding" where
  "bindPvP gs p =
     (if userColor gs = None then (Some (color p), Some HUMAN, Some HUMAN)
      else (userColor gs, redPlayer gs, bluePlayer gs))"

datatype GameMode = PVE | PVP

definition bindMode :: "GameMode \<Rightarrow> bool \<Rightarrow> GameState \<Rightarrow> Piece \<Rightarrow> binding" where
  "bindMode gameMode aiThinking gs p =
     (if userColor gs = None then
        (if gameMode = PVP then (Some (color p), Some HUMAN, Some HUMAN)
         else
           (let isUserTurn = \<not> aiThinking in
              if isUserTurn then
                (if color p = RED then (Some RED, Some HUMAN, Some AI)
                 else (Some BLUE, Some AI, Some HUMAN))
              else
                (if color p = RED then (Some BLUE, Some AI, Some HUMAN)
                 else (Some RED, Some HUMAN, Some AI))))
      else (userColor gs, redPlayer gs, bluePlayer gs))"

text \<open>The win condition; the result is \<open>nextWinner\<close>, of type \<open>PlayerColor | null\<close>.\<close>

definition colorCount :: "PlayerColor \<Rightarrow> Cell list \<Rightarrow> nat" where
  "colorCount c nextBoard = length (filter (\<lambda>cell. map_option color (piece cell) = Some c) nextBoard)"

definition unrevealedCount :: "Cell list \<Rightarrow> nat" where
  "unrevealedCount nextBoard = length (filter (\<lambda>c. \<not> isRevealed c) nextBoard)"

definition nextWinner :: "Cell list \<Rightarrow> PlayerColor option" where
  "nextWinner nextBoard =
     (if unrevealedCount nextBoard = 0 then
        (let realRedCount = colorCount RED nextBoard;
             realBlueCount = colorCount BLUE nextBoard
         in if realRedCount = 0 \<and> realBlueCount = 0 then None
            else if realRedCount = 0 then Some BLUE
            else if realBlueCount = 0 then Some RED
            else None)
      else None)"

text \<open>The closing \<open>setGameState\<close>, with the previous state equal to the state read.\<close>

definition commit :: "GameState \<Rightarrow> Cell list \<Rightarrow> LogEvent \<Rightarrow> binding \<Rightarrow> GameState" where
  "commit gs nextBoard ev b =
     (case b of (nextUserColor, nextRedPlayer, nextBluePlayer) \<Rightarrow>
        gs\<lparr>board := nextBoard,
           turn := (if turn gs = RED then BLUE else RED),
           history := take 50 (\<lparr>event = ev, announced = nextWinner nextBoard\<rparr> # history gs),
           userColor := nextUserColor,
           redPlayer := nextRedPlayer,
           bluePlayer := nextBluePlayer,
           winner := map_option Won (nextWinner nextBoard)\<rparr>)"

text \<open>
  \<open>handleMove\<close>, with the assignment of colours as a parameter, its two branches apart
  (\<open>if (move.isFlip) ... else ...\<close>). On a flip the cell object is
  shared with the stored board, so \<open>targetCell.isRevealed = true\<close> is already in the stored
  state when reading \<open>piece.color\<close> of a missing piece throws. On a move the two cells are
  replaced by copies in the copied array: nothing is stored before \<open>setGameState\<close>.
\<close>

definition flipBranch :: "(GameState \<Rightarrow> Piece \<Rightarrow> binding) \<Rightarrow> GameState \<Rightarrow> Move \<Rightarrow> GameState outcome" where
  "flipBranch bind gs move =
     (case elemAt (board gs) (toIndex move) of
        None \<Rightarrow> Threw TypeError gs
      | Some targetCell \<Rightarrow>
          (let nextBoard = (board gs)[toIndex move := targetCell\<lparr>isRevealed := True\<rparr>] in
             case piece targetCell of
               None \<Rightarrow> Threw TypeError (gs\<lparr>board := nextBoard\<rparr>)
             | Some p \<Rightarrow> Applied (commit gs nextBoard (Flipped (color p) (type p)) (bind gs p))))"

definition moveBranch :: "GameState \<Rightarrow> Move \<Rightarrow> GameState outcome" where
  "moveBranch gs move =
     (case (case fromIndex move of None \<Rightarrow> None | Some f \<Rightarrow> elemAt (board gs) f) of
        None \<Rightarrow> Ignored
      | Some currentCell \<Rightarrow>
          (case piece currentCell of
             None \<Rightarrow> Ignored
           | Some attacker \<Rightarrow>
               (case elemAt (board gs) (toIndex move) of
                  None \<Rightarrow> Threw TypeError gs
                | Some targetCell \<Rightarrow>
                    (let defender = piece targetCell;
                         nextBoard = ((board gs)[toIndex move := targetCell\<lparr>piece := Some attacker\<rparr>])
                                       [the (fromIndex move) := currentCell\<lparr>piece := None\<rparr>];
                         keep = (userColor gs, redPlayer gs, bluePlayer gs)
                     in case defender of
                          Some d \<Rightarrow>
                            (if rank attacker = rank d then
                               Applied (commit gs
                                 (nextBoard[toIndex move := (nextBoard ! toIndex move)\<lparr>piece := None\<rparr>])
                                 (Eliminated (type attacker) (type d)) keep)
                             else Applied (commit gs nextBoard (Ate (type attacker) (type d)) keep))
                        | None \<Rightarrow> Applied (commit gs nextBoard (Moved (type attacker)) keep)))))"

definition handleMoveWith :: "(GameState \<Rightarrow> Piece \<Rightarrow> binding) \<Rightarrow> GameState \<Rightarrow> Move \<Rightarrow> GameState outcome" where
  "handleMoveWith bind gs move =
     (if winner gs \<noteq> None then Ignored
      else if isFlip move then flipBranch bind gs move
      else moveBranch gs move)"

definition handleMove :: "GameState \<Rightarrow> Move \<Rightarrow> GameState outcome" where
  "handleMove = handleMoveWith bindPvP"

definition handleMovePVE :: "GameMode \<Rightarrow> bool \<Rightarrow> GameState \<Rightarrow> Move \<Rightarrow> GameState outcome" where
  "handleMovePVE gameMode aiThinking = handleMoveWith (bindMode gameMode aiThinking)"

section \<open>Interaction (handleCellClick)\<close>

text \<open>\<open>validMoves.find(m => m.fromIndex === selectedIndex && m.toIndex === index)\<close>\<close>

definition findMove :: "Move list \<Rightarrow> nat \<Rightarrow> nat \<Rightarrow> Move option" where
  "findMove validMoves sel idx = find (\<lambda>m. fromIndex m = Some sel \<and> toIndex m = idx) validMoves"

record App =
  gameState :: GameState
  selectedIndex :: "nat option"

definition handleCellClick :: "App \<Rightarrow> nat \<Rightarrow> App outcome" where
  "handleCellClick app idx =
     (if winner (gameState app) \<noteq> None then Ignored
      else
        (case elemAt (board (gameState app)) idx of
           None \<Rightarrow> Threw TypeError app
         | Some cell \<Rightarrow>
             (if \<not> isRevealed cell then
                (if selectedIndex app \<noteq> None then Applied (app\<lparr>selectedIndex := None\<rparr>)
                 else
                   (case handleMove (gameState app) \<lparr>fromIndex = None, toIndex = idx, isFlip = True\<rparr> of
                      Applied gs \<Rightarrow> Applied (app\<lparr>gameState := gs, selectedIndex := None\<rparr>)
                    | Ignored \<Rightarrow> Ignored
                    | Threw e gs \<Rightarrow> Threw e (app\<lparr>gameState := gs\<rparr>)))
              else
                (case selectedIndex app of
                   None \<Rightarrow>
                     (case piece cell of
                        None \<Rightarrow> Ignored
                      | Some p \<Rightarrow>
                          (if color p \<noteq> turn (gameState app) then Ignored
                           else Applied (app\<lparr>selectedIndex := Some idx\<rparr>)))
                 | Some sel \<Rightarrow>
                     (if idx = sel then Applied (app\<lparr>selectedIndex := None\<rparr>)
                      else
                        (case getValidMoves (board (gameState app)) (turn (gameState app)) of
                           Inl e \<Rightarrow> Threw e app
                         | Inr validMoves \<Rightarrow>
                             (case findMove validMoves sel idx of
                                Some move \<Rightarrow>
                                  (case handleMove (gameState app) move of
                                     Applied gs \<Rightarrow> Applied (app\<lparr>gameState := gs, selectedIndex := None\<rparr>)
                                   | Ignored \<Rightarrow> Ignored
                                   | Threw e gs \<Rightarrow> Threw e (app\<lparr>gameState := gs\<rparr>))
                              | None \<Rightarrow>
                                  (if map_option color (piece cell) = Some (turn (gameState app))
                                   then Applied (app\<lparr>selectedIndex := Some idx\<rparr>)
                                   else Applied (app\<lparr>selectedIndex := None\<rparr>)))))))))"

section \<open>Notions used to state the properties\<close>

text \<open>A board as \<open>initGame\<close> builds it and \<open>handleMove\<close> keeps it: 17 cells, cell \<open>i\<close> at position \<open>i\<close>.\<close>

definition wellFormed :: "Cell list \<Rightarrow> bool" where
  "wellFormed cells = (map index cells = [0 ..< TOTAL_CELLS])"

text \<open>What a revealed target cell must satisfy for \<open>getValidMoves\<close> to push the move into it.\<close>

definition enterable :: "PlayerColor \<Rightarrow> Piece \<Rightarrow> nat \<Rightarrow> Cell \<Rightarrow> bool" where
  "enterable c mine t tc \<longleftrightarrow>
     isRevealed tc
     \<and> (t = 16 \<longrightarrow> type mine = RAT \<and> piece tc = None)
     \<and> (case piece tc of None \<Rightarrow> True | Some d \<Rightarrow> color d \<noteq> c \<and> canAttack mine d)"

section \<open>Boards of the scenarios\<close>

text \<open>An open board without pieces, and the same board with a revealed piece put on a cell.\<close>

definition emptyBoard :: "Cell list" where
  "emptyBoard = map (\<lambda>i. \<lparr>index = i, piece = None, isRevealed = True\<rparr>) [0 ..< TOTAL_CELLS]"

definition place :: "nat \<Rightarrow> Piece \<Rightarrow> Cell list \<Rightarrow> Cell list" where
  "place i p cells = cells[i := \<lparr>index = i, piece = Some p, isRevealed = True\<rparr>]"

text \<open>The red Rat (piece 14 of the deck) alone on cell 5, next to the empty Center.\<close>

definition ratNearCenter :: "Cell list" where
  "ratNearCenter = place 5 (INITIAL_DECK ! 14) emptyBoard"

text \<open>The red Elephant (piece 0) on cell 0 and the blue Rat (piece 15) on cell 1.\<close>

definition elephantRat :: "Cell list" where
  "elephantRat = place 0 (INITIAL_DECK ! 0) (place 1 (INITIAL_DECK ! 15) emptyBoard)"

text \<open>The red Cat (piece 12) on cell 0 and the blue Cat (piece 13) on cell 1: the last two pieces.\<close>

definition catsBoard :: "Cell list" where
  "catsBoard = place 0 (INITIAL_DECK ! 12) (place 1 (INITIAL_DECK ! 13) emptyBoard)"

text \<open>A game in progress on a given board, both colours bound, with the given colour to move.\<close>

definition play :: "Cell list \<Rightarrow> PlayerColor \<Rightarrow> GameState" where
  "play cells c =
     \<lparr>board = cells, turn = c, winner = None, redPlayer = Some HUMAN, bluePlayer = Some HUMAN,
      userColor = Some RED, history = []\<rparr>"

text \<open>The state after the first flip of a game dealt in deck order, on cell 0.\<close>

definition firstFlip :: GameState where
  "firstFlip = commit (initGame INITIAL_DECK)
     ((newBoard INITIAL_DECK)[0 := \<lparr>index = 0, piece = Some (INITIAL_DECK ! 0), isRevealed = True\<rparr>])
     (Flipped RED ELEPHANT) (Some RED, Some HUMAN, Some HUMAN)"

text \<open>The state after the blue Rat on cell 1 has taken the red Elephant on cell 0.\<close>

definition winningCapture :: GameState where
  "winningCapture =
     \<lparr>board = place 0 (INITIAL_DECK ! 15) emptyBoard, turn = RED, winner = Some (Won BLUE),
      redPlayer = Some HUMAN, bluePlayer = Some HUMAN, userColor = Some RED,
      history = [\<lparr>event = Ate RAT ELEPHANT, announced = Some BLUE\<rparr>]\<rparr>"

section \<open>Reachable states\<close>

text \<open>
  The states that \<open>handleMove\<close> can leave behind, starting from a fresh game, whatever moves it
  is given: the state it sets, or the state stored when it throws.
\<close>

inductive reachable :: "(GameState \<Rightarrow> Piece \<Rightarrow> binding) \<Rightarrow> GameState \<Rightarrow> bool"
  for bind :: "GameState \<Rightarrow> Piece \<Rightarrow> binding" where
  start: "reachable bind (initGame deck)"
| applied: "reachable bind gs \<Longrightarrow> handleMoveWith bind gs m = Applied gs' \<Longrightarrow> reachable bind gs'"
| threw: "reachable bind gs \<Longrightarrow> handleMoveWith bind gs m = Threw e gs' \<Longrightarrow> reachable bind gs'"

section \<open>Legal play and the pieces removed\<close>

text \<open>A move is legal for a colour when \<open>getValidMoves\<close> returns it for that colour.\<close>

definition isLegal :: "Cell list \<Rightarrow> PlayerColor \<Rightarrow> Move \<Rightarrow> bool" where
  "isLegal cells c m = (case getValidMoves cells c of Inl e \<Rightarrow> False | Inr ms \<Rightarrow> m \<in> set ms)"

text \<open>The pieces on a board: the cells whose \<open>piece\<close> is not \<open>null\<close>.\<close>

definition pieceCount :: "Cell list \<Rightarrow> nat" where
  "pieceCount cells = length (filter (\<lambda>c. piece c \<noteq> None) cells)"

text \<open>
  The state keeps no count of captured pieces. What an applied action removed is read from
  the line it logged: two pieces when it logged a mutual elimination, one when it logged a
  capture, none otherwise.
\<close>

fun removed :: "LogEvent \<Rightarrow> nat" where
  "removed (Eliminated a d) = 2"
| "removed (Ate a d) = 1"
| "removed (Moved a) = 0"
| "removed (Flipped c a) = 0"
| "removed GameStarted = 0"

text \<open>
  \<open>legalPlay bind deck gs n\<close>: the state \<open>gs\<close> is reached from the fresh game dealt from \<open>deck\<close>
  by actions that are legal for the colour to move and that \<open>handleMove\<close> applied, and these
  actions removed \<open>n\<close> pieces in all.
\<close>

inductive legalPlay :: "(GameState \<Rightarrow> Piece \<Rightarrow> binding) \<Rightarrow> Piece list \<Rightarrow> GameState \<Rightarrow> nat \<Rightarrow> bool"
  for bind :: "GameState \<Rightarrow> Piece \<Rightarrow> binding" and deck :: "Piece list" where
  fresh: "legalPlay bind deck (initGame deck) 0"
| action: "legalPlay bind deck gs n \<Longrightarrow> isLegal (board gs) (turn gs) m \<Longrightarrow>
     handleMoveWith bind gs m = Applied gs' \<Longrightarrow>
     legalPlay bind deck gs' (n + removed (event (hd (history gs'))))"

text \<open>
  A game dealt in deck order: cell 0 is flipped (red Elephant), cell 1 is flipped (blue
  Elephant), then the red Elephant takes the blue one and both go.
\<close>

definition secondFlip :: GameState where
  "secondFlip = commit firstFlip
     ((board firstFlip)[1 := \<lparr>index = 1, piece = Some (INITIAL_DECK ! 1), isRevealed = True\<rparr>])
     (Flipped BLUE ELEPHANT) (Some RED, Some HUMAN, Some HUMAN)"

definition elephantsGone :: GameState where
  "elephantsGone = commit secondFlip
     ((board secondFlip)[0 := \<lparr>index = 0, piece = None, isRevealed = True\<rparr>,
                         1 := \<lparr>index = 1, piece = None, isRevealed = True\<rparr>])
     (Eliminated ELEPHANT ELEPHANT) (Some RED, Some HUMAN, Some HUMAN)"

section \<open>States of the validation scenarios\<close>

text \<open>
  The state after \<open>handleMove\<close> is given, on the fresh board dealt in deck order, the move of
  the hidden piece of cell 0 to the Center.
\<close>

definition smuggled :: GameState where
  "smuggled = commit (initGame INITIAL_DECK)
     ((newBoard INITIAL_DECK)
        [16 := \<lparr>index = 16, piece = Some (INITIAL_DECK ! 0), isRevealed = True\<rparr>,
         0 := \<lparr>index = 0, piece = None, isRevealed = False\<rparr>])
     (Moved ELEPHANT) (None, None, None)"

text \<open>The red Rat on cell 5 is selected, Red to move.\<close>

definition ratSelected :: App where
  "ratSelected = \<lparr>gameState = play ratNearCenter RED, selectedIndex = Some 5\<rparr>"

section \<open>The shuffle\<close>

text \<open>
  \<open>[...INITIAL_DECK].sort(() => Math.random() - 0.5)\<close> hands the ordering of the deck to the
  sorting procedure of the runtime, with a comparator that ignores its arguments. The
  procedure is deterministic: it either stops with an ordering or calls the comparator and
  goes on according to the sign of the number it gets. With this comparator a run of the sort
  is therefore a finite tree: \<open>Compare neg zero pos\<close> is a call of the comparator, continued by
  \<open>neg\<close> on a negative result, by \<open>zero\<close> on zero and by \<open>pos\<close> on a positive result.
\<close>

datatype 'a sortRun = Sorted 'a | Compare "'a sortRun" "'a sortRun" "'a sortRun"

text \<open>
  \<open>Math.random()\<close> is taken to return one of the \<open>2 ^ k\<close> numbers \<open>u / 2 ^ k\<close>, each equally likely
  and independent of the earlier calls (the common engines draw 52 or 53 random bits). Then
  \<open>Math.random() - 0.5\<close> is negative for \<open>2 ^ (k - 1)\<close> of them, zero for one, and positive for
  the other \<open>2 ^ (k - 1) - 1\<close>. \<open>probability k run x\<close> is the probability that \<open>run\<close> stops with \<open>x\<close>.
\<close>

fun probability :: "nat \<Rightarrow> 'a sortRun \<Rightarrow> 'a \<Rightarrow> rat" where
  "probability k (Sorted y) x = (if x = y then 1 else 0)"
| "probability k (Compare neg zero pos) x =
     (of_nat (2 ^ (k - 1)) * probability k neg x
      + probability k zero x
      + of_nat (2 ^ (k - 1) - 1) * probability k pos x) / 2 ^ k"

section \<open>Topology: the adjacency predicate\<close>

lemma isAdjacent_sym: "isAdjacent a b = isAdjacent b a"
  by (auto simp: isAdjacent_def Let_def CENTER_INDEX_def)

lemma isAdjacent_irrefl: "\<not> isAdjacent a a"
  by (simp add: isAdjacent_def Let_def CENTER_INDEX_def)

lemma isAdjacent_center: "isAdjacent 16 b \<longleftrightarrow> b \<in> {5, 6, 9, 10}"
  by (simp add: isAdjacent_def CENTER_INDEX_def)

lemma abs_sum_one:
  "\<bar>p\<bar> + \<bar>q\<bar> = (1::int) \<longleftrightarrow> (\<bar>p\<bar> = 1 \<and> \<bar>q\<bar> = 0) \<or> (\<bar>p\<bar> = 0 \<and> \<bar>q\<bar> = 1)"
  by arith

lemma isAdjacent_grid:
  assumes "a \<noteq> 16" and "b \<noteq> 16"
  shows "isAdjacent a b \<longleftrightarrow> manhattan a b = 1"
  unfolding isAdjacent_def manhattan_def Let_def CENTER_INDEX_def BOARD_SIZE_def abs_sum_one
  using assms by simp

text \<open>
  C10. On the indices 0..16 the adjacency predicate is symmetric and irreflexive, the Center
  (16) is adjacent exactly to 5, 6, 9 and 10 (in either argument position), and two grid
  indices (0..15) are adjacent exactly when their Manhattan distance on the 4x4 grid is 1.
  The predicate is a total function: it has a value at every pair.
\<close>

theorem C10_adjacency:
  "\<forall>a \<le> 16. \<forall>b \<le> 16.
     isAdjacent a b = isAdjacent b a
     \<and> \<not> isAdjacent a a
     \<and> (isAdjacent 16 b \<longleftrightarrow> b \<in> {5, 6, 9, 10})
     \<and> (isAdjacent a 16 \<longleftrightarrow> a \<in> {5, 6, 9, 10})
     \<and> (a < 16 \<and> b < 16 \<longrightarrow> (isAdjacent a b \<longleftrightarrow> manhattan a b = 1))"
proof (intro allI impI conjI)
  fix a b :: nat
  show "isAdjacent a b = isAdjacent b a" by (rule isAdjacent_sym)
  show "\<not> isAdjacent a a" by (rule isAdjacent_irrefl)
  show "isAdjacent 16 b \<longleftrightarrow> b \<in> {5, 6, 9, 10}" by (rule isAdjacent_center)
  show "isAdjacent a 16 \<longleftrightarrow> a \<in> {5, 6, 9, 10}"
    using isAdjacent_center [of a] isAdjacent_sym [of a 16] by simp
  assume "a < 16 \<and> b < 16"
  then show "isAdjacent a b \<longleftrightarrow> manhattan a b = 1"
    using isAdjacent_grid [of a b] by simp
qed

theorem C10_adjacency_witness:
  "isAdjacent 5 16 \<and> isAdjacent 16 5 \<and> \<not> isAdjacent 3 4 \<and> isAdjacent 4 5 \<and> manhattan 4 5 = 1
   \<and> \<not> isAdjacent 0 5 \<and> manhattan 0 5 = 2"
  using C10_adjacency [rule_format, of 5 16] C10_adjacency [rule_format, of 3 4]
    C10_adjacency [rule_format, of 4 5] C10_adjacency [rule_format, of 0 5]
  by (simp add: manhattan_def isAdjacent_def Let_def CENTER_INDEX_def BOARD_SIZE_def)

section \<open>Move generation: membership\<close>

lemma neighbors_isAdjacent_all: "list_all (\<lambda>i. list_all (\<lambda>j. (j \<in> set (neighbors i)) = isAdjacent i j) [0..<17]) [0..<17]"
  by code_simp

lemma neighbors_isAdjacent: "i < 17 \<Longrightarrow> j < 17 \<Longrightarrow> (j \<in> set (neighbors i)) = isAdjacent i j"
  using neighbors_isAdjacent_all by (simp add: list_all_iff)

lemma neighbors_bound: "i < 17 \<Longrightarrow> j \<in> set (neighbors i) \<Longrightarrow> j < 17"
  unfolding neighbors_def Let_def CENTER_INDEX_def BOARD_SIZE_def
  by (auto split: if_splits)

lemma neighbors_irrefl: "i \<notin> set (neighbors i)"
  unfolding neighbors_def Let_def CENTER_INDEX_def BOARD_SIZE_def
  by (auto split: if_splits)

lemma wellFormed_length: "wellFormed cells \<Longrightarrow> length cells = 17"
  unfolding wellFormed_def TOTAL_CELLS_def
  by (metis length_map length_upt diff_zero)

lemma wellFormed_index: "wellFormed cells \<Longrightarrow> i < 17 \<Longrightarrow> index (cells ! i) = i"
proof -
  assume wf: "wellFormed cells" and i: "i < 17"
  have "index (cells ! i) = map index cells ! i"
    using wellFormed_length [OF wf] i by simp
  also have "\<dots> = [0 ..< 17] ! i"
    using wf by (simp add: wellFormed_def TOTAL_CELLS_def)
  also have "\<dots> = i" using i by simp
  finally show ?thesis .
qed

lemma wellFormed_elemAt: "wellFormed cells \<Longrightarrow> i < 17 \<Longrightarrow> elemAt cells i = Some (cells ! i)"
  by (simp add: elemAt_def wellFormed_length)

lemma wellFormed_mem: "wellFormed cells \<Longrightarrow> cell \<in> set cells \<Longrightarrow> index cell < 17 \<and> cells ! index cell = cell"
  by (metis in_set_conv_nth wellFormed_index wellFormed_length)

lemma forEachPush_mem:
  "forEachPush f xs = Inr ms \<Longrightarrow> m \<in> set ms \<longleftrightarrow> (\<exists>x \<in> set xs. \<exists>ys. f x = Inr ys \<and> m \<in> set ys)"
proof (induction xs arbitrary: ms)
  case Nil
  then show ?case by simp
next
  case (Cons x xs)
  then show ?case
    by (auto split: sum.splits)
qed

lemma forEachPush_total:
  "(\<And>x. x \<in> set xs \<Longrightarrow> \<exists>ys. f x = Inr ys) \<Longrightarrow> \<exists>ms. forEachPush f xs = Inr ms"
proof (induction xs)
  case Nil
  then show ?case by simp
next
  case (Cons x xs)
  then obtain ys where "f x = Inr ys" by auto
  moreover from Cons obtain zs where "forEachPush f xs = Inr zs" by auto
  ultimately show ?case by simp
qed

lemma tryTarget_Some:
  "elemAt cells t = Some tc \<Longrightarrow>
   tryTarget cells c cell mine t =
     Inr (if enterable c mine t tc
          then [\<lparr>fromIndex = Some (index cell), toIndex = t, isFlip = False\<rparr>] else [])"
  by (auto simp: tryTarget_def enterable_def CENTER_INDEX_def split: option.splits)

lemma tryTarget_Inr:
  "m = \<lparr>fromIndex = Some (index cell), toIndex = t, isFlip = False\<rparr>
   \<and> (\<exists>tc. elemAt cells t = Some tc \<and> enterable c mine t tc)"
  if "tryTarget cells c cell mine t = Inr ys" and "m \<in> set ys"
proof (cases "elemAt cells t")
  case None
  then show ?thesis
    using that by (auto simp: tryTarget_def split: if_splits)
next
  case (Some tc)
  from tryTarget_Some [OF Some, of c cell mine] that show ?thesis
    using Some by (auto split: if_splits)
qed

lemma cellMoves_mem:
  assumes "cellMoves cells c cell = Inr ys" and "m \<in> set ys"
  shows "(\<not> isRevealed cell \<and> m = \<lparr>fromIndex = None, toIndex = index cell, isFlip = True\<rparr>)
       \<or> (isRevealed cell \<and> (\<exists>mine tc. piece cell = Some mine \<and> color mine = c
              \<and> toIndex m \<in> set (neighbors (index cell))
              \<and> m = \<lparr>fromIndex = Some (index cell), toIndex = toIndex m, isFlip = False\<rparr>
              \<and> elemAt cells (toIndex m) = Some tc \<and> enterable c mine (toIndex m) tc))"
proof (cases "isRevealed cell")
  case False
  with assms show ?thesis by (auto simp: cellMoves_def)
next
  case True
  with assms obtain mine where mine: "piece cell = Some mine" "color mine = c"
    and fe: "forEachPush (tryTarget cells c cell mine) (neighbors (index cell)) = Inr ys"
    by (auto simp: cellMoves_def split: option.splits if_splits)
  from forEachPush_mem [OF fe, of m] assms(2)
  obtain t zs where t: "t \<in> set (neighbors (index cell))"
    and zs: "tryTarget cells c cell mine t = Inr zs" "m \<in> set zs"
    by auto
  from tryTarget_Inr [OF zs] t mine True show ?thesis by auto
qed

lemma getValidMoves_mem:
  assumes "getValidMoves cells c = Inr ms" and "m \<in> set ms"
  shows "\<exists>cell \<in> set cells.
       (\<not> isRevealed cell \<and> m = \<lparr>fromIndex = None, toIndex = index cell, isFlip = True\<rparr>)
       \<or> (isRevealed cell \<and> (\<exists>mine tc. piece cell = Some mine \<and> color mine = c
              \<and> toIndex m \<in> set (neighbors (index cell))
              \<and> m = \<lparr>fromIndex = Some (index cell), toIndex = toIndex m, isFlip = False\<rparr>
              \<and> elemAt cells (toIndex m) = Some tc \<and> enterable c mine (toIndex m) tc))"
proof -
  from assms forEachPush_mem [of "cellMoves cells c" cells ms m]
  obtain cell ys where "cell \<in> set cells" "cellMoves cells c cell = Inr ys" "m \<in> set ys"
    by (auto simp: getValidMoves_def)
  with cellMoves_mem [of cells c cell ys m] show ?thesis by blast
qed

lemma cellMoves_total:
  assumes wf: "wellFormed cells" and cell: "cell \<in> set cells"
  shows "\<exists>ys. cellMoves cells c cell = Inr ys"
proof -
  have "\<exists>ys. forEachPush (tryTarget cells c cell mine) (neighbors (index cell)) = Inr ys" for mine
  proof (rule forEachPush_total)
    fix t assume "t \<in> set (neighbors (index cell))"
    then have "t < 17" using neighbors_bound wellFormed_mem [OF wf cell] by blast
    then show "\<exists>ys. tryTarget cells c cell mine t = Inr ys"
      using tryTarget_Some [OF wellFormed_elemAt [OF wf]] by blast
  qed
  then show ?thesis
    by (auto simp: cellMoves_def split: option.splits)
qed

lemma getValidMoves_total: "wellFormed cells \<Longrightarrow> \<exists>ms. getValidMoves cells c = Inr ms"
  unfolding getValidMoves_def
  by (rule forEachPush_total) (rule cellMoves_total)

lemma getValidMoves_move_intro:
  assumes wf: "wellFormed cells" and ms: "getValidMoves cells c = Inr ms"
    and i: "i < 17" and j: "j \<in> set (neighbors i)"
    and src: "isRevealed (cells ! i)" "piece (cells ! i) = Some mine" "color mine = c"
    and tgt: "enterable c mine j (cells ! j)"
  shows "\<lparr>fromIndex = Some i, toIndex = j, isFlip = False\<rparr> \<in> set ms"
proof -
  have j17: "j < 17" using neighbors_bound [OF i j] .
  have idx: "index (cells ! i) = i" using wellFormed_index [OF wf i] .
  have mem: "cells ! i \<in> set cells" using i wellFormed_length [OF wf] by simp
  have tt: "tryTarget cells c (cells ! i) mine j = Inr [\<lparr>fromIndex = Some i, toIndex = j, isFlip = False\<rparr>]"
    using tryTarget_Some [OF wellFormed_elemAt [OF wf j17], of c "cells ! i" mine] tgt idx by simp
  obtain zs where zs: "forEachPush (tryTarget cells c (cells ! i) mine) (neighbors i) = Inr zs"
    using cellMoves_total [OF wf mem, of c] src idx by (auto simp: cellMoves_def)
  have "\<exists>x \<in> set (neighbors i). \<exists>ys. tryTarget cells c (cells ! i) mine x = Inr ys
          \<and> \<lparr>fromIndex = Some i, toIndex = j, isFlip = False\<rparr> \<in> set ys"
    by (rule bexI [OF _ j]) (simp add: tt)
  then have "\<lparr>fromIndex = Some i, toIndex = j, isFlip = False\<rparr> \<in> set zs"
    using forEachPush_mem [OF zs] by simp
  moreover have "cellMoves cells c (cells ! i) = Inr zs"
    using zs src idx by (simp add: cellMoves_def)
  ultimately show ?thesis
    using forEachPush_mem [OF ms [unfolded getValidMoves_def]] mem by blast
qed

section \<open>The Center\<close>

text \<open>
  C4. Whatever the board and the colour, a move (not a flip) into the Center (16) that
  \<open>getValidMoves\<close> returns starts from a cell holding a Rat of that colour, and the Center
  holds no piece: no other piece enters, and nothing enters or attacks an occupied Center.
  On a board of 17 cells in index order whose Center is open and empty, a revealed Rat of the
  colour to move on a cell adjacent to the Center does get the move into it.
\<close>

theorem C4_center_entry:
  "(\<forall>ms m. getValidMoves cells c = Inr ms \<and> m \<in> set ms \<and> \<not> isFlip m \<and> toIndex m = CENTER_INDEX \<longrightarrow>
      (\<exists>cell \<in> set cells. \<exists>mine. fromIndex m = Some (index cell) \<and> piece cell = Some mine
          \<and> type mine = RAT \<and> color mine = c)
      \<and> (\<exists>center. elemAt cells CENTER_INDEX = Some center \<and> piece center = None))
   \<and> (\<forall>i mine. wellFormed cells \<and> isRevealed (cells ! CENTER_INDEX) \<and> piece (cells ! CENTER_INDEX) = None
         \<and> i < 17 \<and> isAdjacent i CENTER_INDEX
         \<and> isRevealed (cells ! i) \<and> piece (cells ! i) = Some mine \<and> type mine = RAT \<and> color mine = c \<longrightarrow>
      (\<exists>ms. getValidMoves cells c = Inr ms
          \<and> \<lparr>fromIndex = Some i, toIndex = CENTER_INDEX, isFlip = False\<rparr> \<in> set ms))"
proof (intro conjI allI impI)
  fix ms m
  assume a: "getValidMoves cells c = Inr ms \<and> m \<in> set ms \<and> \<not> isFlip m \<and> toIndex m = CENTER_INDEX"
  then obtain cell mine tc where cell: "cell \<in> set cells" "piece cell = Some mine" "color mine = c"
    and m: "m = \<lparr>fromIndex = Some (index cell), toIndex = toIndex m, isFlip = False\<rparr>"
    and tc: "elemAt cells (toIndex m) = Some tc" "enterable c mine (toIndex m) tc"
    using getValidMoves_mem [of cells c ms m] by auto
  from a tc have rat: "type mine = RAT" "piece tc = None" and c16: "elemAt cells CENTER_INDEX = Some tc"
    by (simp_all add: enterable_def CENTER_INDEX_def)
  from m have "fromIndex m = Some (index cell)"
    by (metis Move.select_convs(1))
  with cell rat show "\<exists>cell \<in> set cells. \<exists>mine. fromIndex m = Some (index cell) \<and> piece cell = Some mine
          \<and> type mine = RAT \<and> color mine = c"
    by blast
  from c16 rat show "\<exists>center. elemAt cells CENTER_INDEX = Some center \<and> piece center = None"
    by blast
next
  fix i mine
  assume a: "wellFormed cells \<and> isRevealed (cells ! CENTER_INDEX) \<and> piece (cells ! CENTER_INDEX) = None
         \<and> i < 17 \<and> isAdjacent i CENTER_INDEX
         \<and> isRevealed (cells ! i) \<and> piece (cells ! i) = Some mine \<and> type mine = RAT \<and> color mine = c"
  then have wf: "wellFormed cells" by simp
  obtain ms where ms: "getValidMoves cells c = Inr ms"
    using getValidMoves_total [OF wf] by blast
  have nb: "CENTER_INDEX \<in> set (neighbors i)"
    using a neighbors_isAdjacent [of i CENTER_INDEX] by (simp add: CENTER_INDEX_def)
  have ent: "enterable c mine CENTER_INDEX (cells ! CENTER_INDEX)"
    using a by (simp add: enterable_def)
  have "\<lparr>fromIndex = Some i, toIndex = CENTER_INDEX, isFlip = False\<rparr> \<in> set ms"
    using getValidMoves_move_intro [OF wf ms _ nb _ _ _ ent] a by simp
  with ms show "\<exists>ms. getValidMoves cells c = Inr ms
          \<and> \<lparr>fromIndex = Some i, toIndex = CENTER_INDEX, isFlip = False\<rparr> \<in> set ms"
    by blast
qed

theorem C4_center_entry_witness:
  "getValidMoves ratNearCenter RED = Inr
     [\<lparr>fromIndex = Some 5, toIndex = 4, isFlip = False\<rparr>,
      \<lparr>fromIndex = Some 5, toIndex = 6, isFlip = False\<rparr>,
      \<lparr>fromIndex = Some 5, toIndex = 1, isFlip = False\<rparr>,
      \<lparr>fromIndex = Some 5, toIndex = 9, isFlip = False\<rparr>,
      \<lparr>fromIndex = Some 5, toIndex = 16, isFlip = False\<rparr>]
   \<and> (\<exists>cell \<in> set ratNearCenter. \<exists>mine. Some (5::nat) = Some (index cell) \<and> piece cell = Some mine
          \<and> type mine = RAT \<and> color mine = RED)
   \<and> (\<exists>center. elemAt ratNearCenter CENTER_INDEX = Some center \<and> piece center = None)
   \<and> wellFormed ratNearCenter \<and> isRevealed (ratNearCenter ! CENTER_INDEX)
   \<and> piece (ratNearCenter ! CENTER_INDEX) = None \<and> isAdjacent 5 CENTER_INDEX
   \<and> isRevealed (ratNearCenter ! 5) \<and> piece (ratNearCenter ! 5) = Some (INITIAL_DECK ! 14)
   \<and> type (INITIAL_DECK ! 14) = RAT \<and> color (INITIAL_DECK ! 14) = RED
   \<and> (\<exists>ms. getValidMoves ratNearCenter RED = Inr ms
          \<and> \<lparr>fromIndex = Some 5, toIndex = CENTER_INDEX, isFlip = False\<rparr> \<in> set ms)"
proof -
  let ?ms = "[\<lparr>fromIndex = Some 5, toIndex = 4, isFlip = False\<rparr>,
      \<lparr>fromIndex = Some 5, toIndex = 6, isFlip = False\<rparr>,
      \<lparr>fromIndex = Some 5, toIndex = 1, isFlip = False\<rparr>,
      \<lparr>fromIndex = Some 5, toIndex = 9, isFlip = False\<rparr>,
      \<lparr>fromIndex = Some 5, toIndex = 16, isFlip = False\<rparr>]"
  have ms: "getValidMoves ratNearCenter RED = Inr ?ms" by code_simp
  have wf: "wellFormed ratNearCenter" by code_simp
  have c: "isRevealed (ratNearCenter ! CENTER_INDEX)" "piece (ratNearCenter ! CENTER_INDEX) = None"
    "isAdjacent 5 CENTER_INDEX" by code_simp+
  have r: "isRevealed (ratNearCenter ! 5)" "piece (ratNearCenter ! 5) = Some (INITIAL_DECK ! 14)"
    "type (INITIAL_DECK ! 14) = RAT" "color (INITIAL_DECK ! 14) = RED" by code_simp+
  have one: "(\<exists>cell \<in> set ratNearCenter. \<exists>mine.
       fromIndex \<lparr>fromIndex = Some 5, toIndex = 16, isFlip = False\<rparr> = Some (index cell)
          \<and> piece cell = Some mine \<and> type mine = RAT \<and> color mine = RED)
     \<and> (\<exists>center. elemAt ratNearCenter CENTER_INDEX = Some center \<and> piece center = None)"
    by (rule C4_center_entry [of ratNearCenter RED, THEN conjunct1, rule_format, of ?ms])
       (simp add: ms CENTER_INDEX_def)
  have two: "\<exists>ms. getValidMoves ratNearCenter RED = Inr ms
          \<and> \<lparr>fromIndex = Some 5, toIndex = CENTER_INDEX, isFlip = False\<rparr> \<in> set ms"
    by (rule C4_center_entry [of ratNearCenter RED, THEN conjunct2, rule_format, of 5 "INITIAL_DECK ! 14"])
       (simp add: wf c r)
  from one two ms wf c r show ?thesis by simp
qed

lemma elemAt_Some: "elemAt xs i = Some x \<longleftrightarrow> i < length xs \<and> xs ! i = x"
  by (auto simp: elemAt_def)

lemma getValidMoves_move_iff:
  assumes wf: "wellFormed cells" and ms: "getValidMoves cells c = Inr ms" and i: "i < 17"
  shows "\<lparr>fromIndex = Some i, toIndex = j, isFlip = False\<rparr> \<in> set ms \<longleftrightarrow>
         j \<in> set (neighbors i) \<and> isRevealed (cells ! i)
         \<and> (\<exists>mine. piece (cells ! i) = Some mine \<and> color mine = c \<and> enterable c mine j (cells ! j))"
    (is "?m \<in> set ms \<longleftrightarrow> ?rhs")
proof
  assume "?m \<in> set ms"
  from getValidMoves_mem [OF ms this]
  obtain cell mine tc where cell: "cell \<in> set cells" "isRevealed cell" "piece cell = Some mine"
      "color mine = c" and nb: "j \<in> set (neighbors (index cell))" and idx: "i = index cell"
    and tc: "elemAt cells j = Some tc" "enterable c mine j tc"
    by auto
  from wellFormed_mem [OF wf cell(1)] idx have "cells ! i = cell" by simp
  moreover from tc(1) have "cells ! j = tc" by (simp add: elemAt_Some)
  ultimately show ?rhs using cell nb idx tc by auto
next
  assume ?rhs
  then show "?m \<in> set ms"
    using getValidMoves_move_intro [OF wf ms i] by blast
qed

lemma canAttack_iff:
  "canAttack a d \<longleftrightarrow>
     (if type a = ELEPHANT \<and> type d = RAT then False
      else if type a = RAT \<and> type d = ELEPHANT then True
      else rank a \<ge> rank d)"
  by (simp add: canAttack_def Let_def)

section \<open>Attacks\<close>

text \<open>
  C5. On a board of 17 cells in index order, for a revealed piece of the colour to move and a
  revealed piece of the other colour on an adjacent grid cell, \<open>getValidMoves\<close> returns the
  attack exactly when the attacker's rank is at least the defender's, except that an Elephant
  never attacks a Rat and a Rat always attacks an Elephant.
\<close>

theorem C5_attack_rule:
  assumes "wellFormed cells" and "getValidMoves cells c = Inr ms"
    and "i < 17" and "j < 16" and "isAdjacent i j"
    and "isRevealed (cells ! i)" and "piece (cells ! i) = Some attacker" and "color attacker = c"
    and "isRevealed (cells ! j)" and "piece (cells ! j) = Some defender" and "color defender \<noteq> c"
  shows "\<lparr>fromIndex = Some i, toIndex = j, isFlip = False\<rparr> \<in> set ms \<longleftrightarrow>
         (if type attacker = ELEPHANT \<and> type defender = RAT then False
          else if type attacker = RAT \<and> type defender = ELEPHANT then True
          else rank attacker \<ge> rank defender)"
proof -
  have "j \<in> set (neighbors i)"
    using assms(3-5) neighbors_isAdjacent [of i j] by simp
  moreover have "enterable c attacker j (cells ! j) \<longleftrightarrow> canAttack attacker defender"
    using assms(4,9-11) by (simp add: enterable_def)
  ultimately have "\<lparr>fromIndex = Some i, toIndex = j, isFlip = False\<rparr> \<in> set ms \<longleftrightarrow>
      canAttack attacker defender"
    using getValidMoves_move_iff [OF assms(1-3), of j] assms(6-8) by simp
  then show ?thesis
    by (simp only: canAttack_iff)
qed

theorem C5_attack_rule_witness:
  "wellFormed elephantRat
   \<and> getValidMoves elephantRat RED = Inr [\<lparr>fromIndex = Some 0, toIndex = 4, isFlip = False\<rparr>]
   \<and> getValidMoves elephantRat BLUE =
       Inr [\<lparr>fromIndex = Some 1, toIndex = 0, isFlip = False\<rparr>,
            \<lparr>fromIndex = Some 1, toIndex = 2, isFlip = False\<rparr>,
            \<lparr>fromIndex = Some 1, toIndex = 5, isFlip = False\<rparr>]
   \<and> (0::nat) < 17 \<and> (1::nat) < 16 \<and> isAdjacent 0 1 \<and> isAdjacent 1 0
   \<and> isRevealed (elephantRat ! 0) \<and> piece (elephantRat ! 0) = Some (INITIAL_DECK ! 0)
   \<and> color (INITIAL_DECK ! 0) = RED
   \<and> isRevealed (elephantRat ! 1) \<and> piece (elephantRat ! 1) = Some (INITIAL_DECK ! 15)
   \<and> color (INITIAL_DECK ! 15) = BLUE
   \<and> type (INITIAL_DECK ! 0) = ELEPHANT \<and> type (INITIAL_DECK ! 15) = RAT
   \<and> \<lparr>fromIndex = Some 0, toIndex = 1, isFlip = False\<rparr>
        \<notin> set [\<lparr>fromIndex = Some 0, toIndex = 4, isFlip = False\<rparr>]
   \<and> \<lparr>fromIndex = Some 1, toIndex = 0, isFlip = False\<rparr>
        \<in> set [\<lparr>fromIndex = Some 1, toIndex = 0, isFlip = False\<rparr>,
                 \<lparr>fromIndex = Some 1, toIndex = 2, isFlip = False\<rparr>,
                 \<lparr>fromIndex = Some 1, toIndex = 5, isFlip = False\<rparr>]"
proof -
  have wf: "wellFormed elephantRat" by code_simp
  have ms: "getValidMoves elephantRat RED = Inr [\<lparr>fromIndex = Some 0, toIndex = 4, isFlip = False\<rparr>]"
    by code_simp
  have ms': "getValidMoves elephantRat BLUE =
       Inr [\<lparr>fromIndex = Some 1, toIndex = 0, isFlip = False\<rparr>,
            \<lparr>fromIndex = Some 1, toIndex = 2, isFlip = False\<rparr>,
            \<lparr>fromIndex = Some 1, toIndex = 5, isFlip = False\<rparr>]"
    by code_simp
  have adj: "isAdjacent 0 1" "isAdjacent 1 0" by code_simp+
  have a: "isRevealed (elephantRat ! 0)" "piece (elephantRat ! 0) = Some (INITIAL_DECK ! 0)"
    "color (INITIAL_DECK ! 0) = RED" "type (INITIAL_DECK ! 0) = ELEPHANT" by code_simp+
  have d: "isRevealed (elephantRat ! 1)" "piece (elephantRat ! 1) = Some (INITIAL_DECK ! 15)"
    "color (INITIAL_DECK ! 15) = BLUE" "type (INITIAL_DECK ! 15) = RAT" by code_simp+
  have no: "\<lparr>fromIndex = Some 0, toIndex = 1, isFlip = False\<rparr>
        \<notin> set [\<lparr>fromIndex = Some 0, toIndex = 4, isFlip = False\<rparr>]"
    using C5_attack_rule [OF wf ms _ _ adj(1) a(1-3) d(1,2)] a(4) d(3,4) by simp
  have yes: "\<lparr>fromIndex = Some 1, toIndex = 0, isFlip = False\<rparr>
        \<in> set [\<lparr>fromIndex = Some 1, toIndex = 0, isFlip = False\<rparr>,
                 \<lparr>fromIndex = Some 1, toIndex = 2, isFlip = False\<rparr>,
                 \<lparr>fromIndex = Some 1, toIndex = 5, isFlip = False\<rparr>]"
    using C5_attack_rule [OF wf ms' _ _ adj(2) d(1-3) a(1,2)] a(3,4) d(4) by simp
  from wf ms ms' adj a d no yes show ?thesis by simp
qed

section \<open>Applying a move\<close>

lemma board_commit: "board (commit gs nb ev b) = nb"
  by (cases b) (simp add: commit_def)

lemma winner_commit: "winner (commit gs nb ev b) = map_option Won (nextWinner nb)"
  by (cases b) (simp add: commit_def)

lemma history_commit:
  "history (commit gs nb ev b) = take 50 (\<lparr>event = ev, announced = nextWinner nb\<rparr> # history gs)"
  by (cases b) (simp add: commit_def)

lemma turn_commit: "turn (commit gs nb ev b) = (if turn gs = RED then BLUE else RED)"
  by (cases b) (simp add: commit_def)

lemma wellFormed_update:
  assumes "wellFormed cells" and "k < 17" and "index c = k"
  shows "wellFormed (cells[k := c])"
proof -
  have "map index (cells[k := c]) = (map index cells)[k := k]"
    using assms(3) by (simp add: map_update)
  also have "\<dots> = [0 ..< 17][k := [0 ..< 17] ! k]"
    using assms(1,2) by (simp add: wellFormed_def TOTAL_CELLS_def)
  also have "\<dots> = [0 ..< 17]" by (rule list_update_id)
  finally show ?thesis by (simp add: wellFormed_def TOTAL_CELLS_def)
qed

lemma legal_move_facts:
  assumes wf: "wellFormed cells" and ms: "getValidMoves cells c = Inr ms"
    and m: "m \<in> set ms" and nf: "\<not> isFlip m"
  shows "\<exists>i mine. fromIndex m = Some i \<and> i < 17 \<and> toIndex m < 17 \<and> i \<noteq> toIndex m
        \<and> toIndex m \<in> set (neighbors i)
        \<and> isRevealed (cells ! i) \<and> piece (cells ! i) = Some mine \<and> color mine = c
        \<and> enterable c mine (toIndex m) (cells ! toIndex m)"
proof -
  from getValidMoves_mem [OF ms m] nf
  obtain cell mine tc where cell: "cell \<in> set cells" "isRevealed cell" "piece cell = Some mine"
      "color mine = c" and nb: "toIndex m \<in> set (neighbors (index cell))"
    and mm: "m = \<lparr>fromIndex = Some (index cell), toIndex = toIndex m, isFlip = False\<rparr>"
    and tc: "elemAt cells (toIndex m) = Some tc" "enterable c mine (toIndex m) tc"
    by auto
  let ?i = "index cell"
  from wellFormed_mem [OF wf cell(1)] have i: "?i < 17" "cells ! ?i = cell" by simp_all
  from mm have f: "fromIndex m = Some ?i" by (metis Move.select_convs(1))
  from tc(1) have t: "cells ! toIndex m = tc" "toIndex m < 17"
    using wellFormed_length [OF wf] by (simp_all add: elemAt_Some)
  from nb have "?i \<noteq> toIndex m" using neighbors_irrefl by metis
  with f i t nb cell tc show ?thesis by auto
qed

lemma handleMoveWith_Applied:
  assumes "handleMoveWith bind gs m = Applied gs'"
  shows "winner gs = None \<and> winner gs' = map_option Won (nextWinner (board gs'))"
  using assms
  by (auto simp: handleMoveWith_def flipBranch_def moveBranch_def Let_def board_commit winner_commit
           split: if_splits option.splits)

lemma handleMoveWith_Threw:
  assumes "handleMoveWith bind gs m = Threw e gs'"
  shows "winner gs' = None \<and> (gs' = gs \<or> (\<exists>tc. isFlip m \<and> elemAt (board gs) (toIndex m) = Some tc
           \<and> piece tc = None \<and> gs' = gs\<lparr>board := (board gs)[toIndex m := tc\<lparr>isRevealed := True\<rparr>]\<rparr>))"
  using assms
  by (auto simp: handleMoveWith_def flipBranch_def moveBranch_def Let_def
           split: if_splits option.splits)

lemma nextWinner_Some: "nextWinner nb = Some c \<Longrightarrow> unrevealedCount nb = 0"
  by (simp add: nextWinner_def split: if_splits)

text \<open>
  C6. A capture that \<open>getValidMoves\<close> returns for the colour to move, applied by \<open>handleMove\<close>
  (either version) to a game without a winner on a board of 17 cells in index order: the
  source cell ends without a piece; the destination cell ends without a piece when the two
  ranks are equal, and with the attacker otherwise; both cells are revealed; no other cell
  changes.
\<close>

theorem C6_capture:
  assumes wf: "wellFormed (board gs)" and w: "winner gs = None"
    and ms: "getValidMoves (board gs) (turn gs) = Inr ms"
    and m: "m \<in> set ms" and nf: "\<not> isFlip m"
    and src: "fromIndex m = Some i" and att: "piece (board gs ! i) = Some attacker"
    and dfd: "piece (board gs ! toIndex m) = Some defender"
  shows "\<exists>gs'. handleMoveWith bind gs m = Applied gs'
      \<and> wellFormed (board gs')
      \<and> (\<forall>k < 17. k \<noteq> i \<and> k \<noteq> toIndex m \<longrightarrow> board gs' ! k = board gs ! k)
      \<and> isRevealed (board gs' ! i) \<and> isRevealed (board gs' ! toIndex m)
      \<and> piece (board gs' ! i) = None
      \<and> piece (board gs' ! toIndex m) = (if rank attacker = rank defender then None else Some attacker)"
proof -
  let ?j = "toIndex m"
  let ?b = "board gs"
  from legal_move_facts [OF wf ms m nf] src att
  have i: "i < 17" and j: "?j < 17" and ij: "i \<noteq> ?j" and ri: "isRevealed (?b ! i)"
    and ent: "enterable (turn gs) attacker ?j (?b ! ?j)"
    by auto
  from ent have rj: "isRevealed (?b ! ?j)" by (simp add: enterable_def)
  have len: "length ?b = 17" using wellFormed_length [OF wf] .
  have ati: "elemAt ?b i = Some (?b ! i)" and atj: "elemAt ?b ?j = Some (?b ! ?j)"
    using i j len by (simp_all add: elemAt_def)
  let ?nb = "(?b[?j := (?b ! ?j)\<lparr>piece := Some attacker\<rparr>])[i := (?b ! i)\<lparr>piece := None\<rparr>]"
  let ?nb' = "?nb[?j := (?nb ! ?j)\<lparr>piece := None\<rparr>]"
  have idx: "index (?b ! i) = i" "index (?b ! ?j) = ?j"
    using wellFormed_index [OF wf] i j by simp_all
  have wfnb: "wellFormed ?nb"
    by (rule wellFormed_update [OF wellFormed_update [OF wf j] i]) (simp_all add: idx)
  have nbj: "?nb ! ?j = (?b ! ?j)\<lparr>piece := Some attacker\<rparr>"
    using ij j len by simp
  have wfnb': "wellFormed ?nb'"
    by (rule wellFormed_update [OF wfnb j]) (simp add: nbj idx)
  show ?thesis
  proof (cases "rank attacker = rank defender")
    case True
    have hm: "handleMoveWith bind gs m = Applied (commit gs ?nb'
        (Eliminated (type attacker) (type defender)) (userColor gs, redPlayer gs, bluePlayer gs))"
      using w nf src att dfd ati atj True
      by (simp add: handleMoveWith_def moveBranch_def Let_def)
    show ?thesis
      unfolding hm
      using wfnb' i j ij len ri rj True nbj
      by (simp add: board_commit)
  next
    case False
    have hm: "handleMoveWith bind gs m = Applied (commit gs ?nb
        (Ate (type attacker) (type defender)) (userColor gs, redPlayer gs, bluePlayer gs))"
      using w nf src att dfd ati atj False
      by (simp add: handleMoveWith_def moveBranch_def Let_def)
    show ?thesis
      unfolding hm
      using wfnb i j ij len ri rj False nbj
      by (simp add: board_commit)
  qed
qed

theorem C6_capture_witness:
  "wellFormed (board (play catsBoard RED)) \<and> winner (play catsBoard RED) = None
   \<and> getValidMoves (board (play catsBoard RED)) (turn (play catsBoard RED)) =
       Inr [\<lparr>fromIndex = Some 0, toIndex = 1, isFlip = False\<rparr>,
            \<lparr>fromIndex = Some 0, toIndex = 4, isFlip = False\<rparr>]
   \<and> piece (board (play catsBoard RED) ! 0) = Some (INITIAL_DECK ! 12)
   \<and> piece (board (play catsBoard RED) ! 1) = Some (INITIAL_DECK ! 13)
   \<and> rank (INITIAL_DECK ! 12) = rank (INITIAL_DECK ! 13)
   \<and> (\<exists>gs'. handleMove (play catsBoard RED) \<lparr>fromIndex = Some 0, toIndex = 1, isFlip = False\<rparr>
               = Applied gs'
          \<and> isRevealed (board gs' ! 0) \<and> isRevealed (board gs' ! 1)
          \<and> piece (board gs' ! 0) = None \<and> piece (board gs' ! 1) = None)
   \<and> getValidMoves (board (play elephantRat BLUE)) (turn (play elephantRat BLUE)) =
       Inr [\<lparr>fromIndex = Some 1, toIndex = 0, isFlip = False\<rparr>,
            \<lparr>fromIndex = Some 1, toIndex = 2, isFlip = False\<rparr>,
            \<lparr>fromIndex = Some 1, toIndex = 5, isFlip = False\<rparr>]
   \<and> rank (INITIAL_DECK ! 15) \<noteq> rank (INITIAL_DECK ! 0)
   \<and> (\<exists>gs'. handleMove (play elephantRat BLUE) \<lparr>fromIndex = Some 1, toIndex = 0, isFlip = False\<rparr>
               = Applied gs'
          \<and> piece (board gs' ! 1) = None \<and> piece (board gs' ! 0) = Some (INITIAL_DECK ! 15))"
proof -
  let ?g = "play catsBoard RED"
  let ?m = "\<lparr>fromIndex = Some 0, toIndex = 1, isFlip = False\<rparr>"
  have wf: "wellFormed (board ?g)" by code_simp
  have w: "winner ?g = None" by (simp add: play_def)
  have ms: "getValidMoves (board ?g) (turn ?g) =
       Inr [?m, \<lparr>fromIndex = Some 0, toIndex = 4, isFlip = False\<rparr>]"
    by code_simp
  have p: "piece (board ?g ! 0) = Some (INITIAL_DECK ! 12)"
    "piece (board ?g ! 1) = Some (INITIAL_DECK ! 13)"
    "rank (INITIAL_DECK ! 12) = rank (INITIAL_DECK ! 13)" by code_simp+
  have one: "\<exists>gs'. handleMove ?g ?m = Applied gs'
          \<and> isRevealed (board gs' ! 0) \<and> isRevealed (board gs' ! 1)
          \<and> piece (board gs' ! 0) = None \<and> piece (board gs' ! 1) = None"
    using C6_capture [OF wf w ms, of ?m 0 "INITIAL_DECK ! 12" "INITIAL_DECK ! 13" bindPvP] p
    by (auto simp: handleMove_def)
  let ?h = "play elephantRat BLUE"
  let ?n = "\<lparr>fromIndex = Some 1, toIndex = 0, isFlip = False\<rparr>"
  have wf2: "wellFormed (board ?h)" by code_simp
  have w2: "winner ?h = None" by (simp add: play_def)
  have ms2: "getValidMoves (board ?h) (turn ?h) =
       Inr [?n, \<lparr>fromIndex = Some 1, toIndex = 2, isFlip = False\<rparr>,
            \<lparr>fromIndex = Some 1, toIndex = 5, isFlip = False\<rparr>]"
    by code_simp
  have q: "piece (board ?h ! 1) = Some (INITIAL_DECK ! 15)"
    "piece (board ?h ! 0) = Some (INITIAL_DECK ! 0)"
    "rank (INITIAL_DECK ! 15) \<noteq> rank (INITIAL_DECK ! 0)" by code_simp+
  have two: "\<exists>gs'. handleMove ?h ?n = Applied gs'
          \<and> piece (board gs' ! 1) = None \<and> piece (board gs' ! 0) = Some (INITIAL_DECK ! 15)"
    using C6_capture [OF wf2 w2 ms2, of ?n 1 "INITIAL_DECK ! 15" "INITIAL_DECK ! 0" bindPvP] q
    by (auto simp: handleMove_def)
  from wf w ms p one ms2 q(3) two show ?thesis by blast
qed

section \<open>Win evaluation\<close>

lemma reachable_winner:
  assumes "reachable bind gs"
  shows "winner gs = None \<or> unrevealedCount (board gs) = 0"
  using assms
proof (induction rule: reachable.induct)
  case (start deck)
  show ?case by (simp add: initGame_def)
next
  case (applied gs m gs')
  from handleMoveWith_Applied [OF applied.hyps(2)]
  show ?case
    by (cases "nextWinner (board gs')") (simp_all add: nextWinner_Some)
next
  case (threw gs m e gs')
  from handleMoveWith_Threw [OF threw.hyps(2)] show ?case by simp
qed

text \<open>
  C3. In a state reachable from a fresh game the winner is unset as long as a cell is
  unrevealed, whatever the pieces left on the board; and an action that sets a winner leaves
  no cell unrevealed.
\<close>

theorem C3_no_winner_while_hidden:
  "(reachable bind gs \<and> 0 < unrevealedCount (board gs) \<longrightarrow> winner gs = None)
   \<and> (handleMoveWith bind s m = Applied s' \<and> winner s' \<noteq> None \<longrightarrow> unrevealedCount (board s') = 0)"
proof (intro conjI impI)
  assume "reachable bind gs \<and> 0 < unrevealedCount (board gs)"
  then show "winner gs = None"
    using reachable_winner [of bind gs] by auto
next
  assume a: "handleMoveWith bind s m = Applied s' \<and> winner s' \<noteq> None"
  then have "winner s' = map_option Won (nextWinner (board s'))"
    using handleMoveWith_Applied by blast
  with a show "unrevealedCount (board s') = 0"
    by (cases "nextWinner (board s')") (simp_all add: nextWinner_Some)
qed

lemma firstFlip_applied:
  "handleMoveWith bindPvP (initGame INITIAL_DECK) \<lparr>fromIndex = None, toIndex = 0, isFlip = True\<rparr>
     = Applied firstFlip"
  by code_simp

theorem C3_no_winner_while_hidden_witness:
  "reachable bindPvP firstFlip \<and> 0 < unrevealedCount (board firstFlip) \<and> winner firstFlip = None
   \<and> handleMoveWith bindPvP (play elephantRat BLUE)
        \<lparr>fromIndex = Some 1, toIndex = 0, isFlip = False\<rparr> = Applied winningCapture
   \<and> winner winningCapture \<noteq> None \<and> unrevealedCount (board winningCapture) = 0"
proof -
  have r: "reachable bindPvP firstFlip"
    by (rule reachable.applied [OF reachable.start firstFlip_applied])
  have u: "0 < unrevealedCount (board firstFlip)" by code_simp
  have h: "handleMoveWith bindPvP (play elephantRat BLUE)
        \<lparr>fromIndex = Some 1, toIndex = 0, isFlip = False\<rparr> = Applied winningCapture"
    by code_simp
  have w: "winner winningCapture \<noteq> None" by (simp add: winningCapture_def)
  note inst = C3_no_winner_while_hidden [of bindPvP firstFlip "play elephantRat BLUE"
      "\<lparr>fromIndex = Some 1, toIndex = 0, isFlip = False\<rparr>" winningCapture]
  from inst r u have "winner firstFlip = None" by blast
  moreover from inst h w have "unrevealedCount (board winningCapture) = 0" by blast
  ultimately show ?thesis using r u h w by blast
qed

text \<open>
  What an applied action stores as winner once no cell is unrevealed: the colour that still
  has pieces when the other has none, and nothing in the other cases, also when neither colour
  has a piece left.
\<close>

lemma winner_after_action:
  assumes "handleMoveWith bind gs m = Applied gs'" and "unrevealedCount (board gs') = 0"
  shows "(colorCount RED (board gs') = 0 \<and> 0 < colorCount BLUE (board gs') \<longrightarrow>
            winner gs' = Some (Won BLUE))
       \<and> (colorCount BLUE (board gs') = 0 \<and> 0 < colorCount RED (board gs') \<longrightarrow>
            winner gs' = Some (Won RED))
       \<and> (colorCount RED (board gs') = 0 \<and> colorCount BLUE (board gs') = 0 \<longrightarrow>
            winner gs' = None)
       \<and> (0 < colorCount RED (board gs') \<and> 0 < colorCount BLUE (board gs') \<longrightarrow>
            winner gs' = None)"
  using handleMoveWith_Applied [OF assms(1)] assms(2)
  by (simp add: nextWinner_def Let_def)

text \<open>
  C1, the draw. The red Cat on cell 0 takes the blue Cat on cell 1, the last two pieces, on a
  board without unrevealed cells: the move is among the valid moves, both pieces go, both
  colours have zero pieces, and \<open>handleMove\<close> (either version) leaves the winner unset;
  \<open>DRAW\<close> is not assigned.
\<close>

theorem C1_draw_left_undecided:
  "getValidMoves (board (play catsBoard RED)) (turn (play catsBoard RED)) =
       Inr [\<lparr>fromIndex = Some 0, toIndex = 1, isFlip = False\<rparr>,
            \<lparr>fromIndex = Some 0, toIndex = 4, isFlip = False\<rparr>]
   \<and> handleMove (play catsBoard RED) \<lparr>fromIndex = Some 0, toIndex = 1, isFlip = False\<rparr> =
       Applied \<lparr>board = emptyBoard, turn = BLUE, winner = None, redPlayer = Some HUMAN,
                bluePlayer = Some HUMAN, userColor = Some RED,
                history = [\<lparr>event = Eliminated CAT CAT, announced = None\<rparr>]\<rparr>
   \<and> handleMovePVE PVE False (play catsBoard RED)
         \<lparr>fromIndex = Some 0, toIndex = 1, isFlip = False\<rparr> =
       Applied \<lparr>board = emptyBoard, turn = BLUE, winner = None, redPlayer = Some HUMAN,
                bluePlayer = Some HUMAN, userColor = Some RED,
                history = [\<lparr>event = Eliminated CAT CAT, announced = None\<rparr>]\<rparr>
   \<and> unrevealedCount emptyBoard = 0 \<and> colorCount RED emptyBoard = 0
   \<and> colorCount BLUE emptyBoard = 0"
  by code_simp

section \<open>The fresh board\<close>

lemma INITIAL_DECK_list:
  "INITIAL_DECK =
     [\<lparr>pid = ''red-ELEPHANT-0'', type = ELEPHANT, color = RED, rank = 8\<rparr>,
      \<lparr>pid = ''blue-ELEPHANT-1'', type = ELEPHANT, color = BLUE, rank = 8\<rparr>,
      \<lparr>pid = ''red-LION-2'', type = LION, color = RED, rank = 7\<rparr>,
      \<lparr>pid = ''blue-LION-3'', type = LION, color = BLUE, rank = 7\<rparr>,
      \<lparr>pid = ''red-TIGER-4'', type = TIGER, color = RED, rank = 6\<rparr>,
      \<lparr>pid = ''blue-TIGER-5'', type = TIGER, color = BLUE, rank = 6\<rparr>,
      \<lparr>pid = ''red-LEOPARD-6'', type = LEOPARD, color = RED, rank = 5\<rparr>,
      \<lparr>pid = ''blue-LEOPARD-7'', type = LEOPARD, color = BLUE, rank = 5\<rparr>,
      \<lparr>pid = ''red-WOLF-8'', type = WOLF, color = RED, rank = 4\<rparr>,
      \<lparr>pid = ''blue-WOLF-9'', type = WOLF, color = BLUE, rank = 4\<rparr>,
      \<lparr>pid = ''red-DOG-10'', type = DOG, color = RED, rank = 3\<rparr>,
      \<lparr>pid = ''blue-DOG-11'', type = DOG, color = BLUE, rank = 3\<rparr>,
      \<lparr>pid = ''red-CAT-12'', type = CAT, color = RED, rank = 2\<rparr>,
      \<lparr>pid = ''blue-CAT-13'', type = CAT, color = BLUE, rank = 2\<rparr>,
      \<lparr>pid = ''red-RAT-14'', type = RAT, color = RED, rank = 1\<rparr>,
      \<lparr>pid = ''blue-RAT-15'', type = RAT, color = BLUE, rank = 1\<rparr>]"
  by code_simp

lemma length_INITIAL_DECK: "length INITIAL_DECK = 16"
  by (simp add: INITIAL_DECK_list)

lemma INITIAL_DECK_kinds:
  "map (\<lambda>p. (color p, type p, rank p)) INITIAL_DECK =
     [(RED, ELEPHANT, 8), (BLUE, ELEPHANT, 8), (RED, LION, 7), (BLUE, LION, 7), (RED, TIGER, 6), (BLUE, TIGER, 6), (RED, LEOPARD, 5), (BLUE, LEOPARD, 5), (RED, WOLF, 4), (BLUE, WOLF, 4), (RED, DOG, 3), (BLUE, DOG, 3), (RED, CAT, 2), (BLUE, CAT, 2), (RED, RAT, 1), (BLUE, RAT, 1)]"
  by (simp add: INITIAL_DECK_list)

lemma INITIAL_DECK_ranks:
  assumes "p \<in> set INITIAL_DECK"
  shows "rank p = ANIMAL_RANKS (type p)"
proof -
  have "(color p, type p, rank p) \<in> set (map (\<lambda>p. (color p, type p, rank p)) INITIAL_DECK)"
    using assms by simp
  then show ?thesis
    unfolding INITIAL_DECK_kinds by auto
qed

lemma INITIAL_DECK_once:
  "length (filter (\<lambda>p. color p = c \<and> type p = k) INITIAL_DECK) = 1"
proof -
  have "length (filter (\<lambda>p. color p = c \<and> type p = k) INITIAL_DECK)
        = length (filter (\<lambda>t. fst t = c \<and> fst (snd t) = k)
                    (map (\<lambda>p. (color p, type p, rank p)) INITIAL_DECK))"
    by (simp add: filter_map comp_def)
  also have "\<dots> = 1"
    unfolding INITIAL_DECK_kinds by (cases c; cases k; simp)
  finally show ?thesis .
qed

lemma newBoard_nth:
  "i < 17 \<Longrightarrow> newBoard deck ! i =
     (if i = 16 then \<lparr>index = i, piece = None, isRevealed = True\<rparr>
      else \<lparr>index = i, piece = elemAt deck i, isRevealed = False\<rparr>)"
  by (simp add: newBoard_def TOTAL_CELLS_def CENTER_INDEX_def)

lemma length_newBoard: "length (newBoard deck) = 17"
  by (simp add: newBoard_def TOTAL_CELLS_def)

lemma wellFormed_newBoard: "wellFormed (newBoard deck)"
  by (auto simp: wellFormed_def newBoard_def TOTAL_CELLS_def intro: nth_equalityI)

lemma pieces_newBoard:
  assumes "length deck = 16"
  shows "map piece (take 16 (newBoard deck)) = map Some deck"
  using assms
  by (intro nth_equalityI) (simp_all add: length_newBoard newBoard_nth elemAt_def)

lemma count_newBoard:
  assumes "length deck = 16"
  shows "length (filter (\<lambda>cell. \<exists>p. piece cell = Some p \<and> Q p) (take 16 (newBoard deck)))
         = length (filter Q deck)"
proof -
  let ?R = "\<lambda>x. \<exists>p. x = Some p \<and> Q p"
  have "length (filter (\<lambda>cell. ?R (piece cell)) (take 16 (newBoard deck)))
        = length (filter ?R (map piece (take 16 (newBoard deck))))"
    by (simp add: filter_map comp_def)
  also have "\<dots> = length (filter ?R (map Some deck))"
    by (simp only: pieces_newBoard [OF assms])
  also have "\<dots> = length (filter Q deck)"
    by (simp add: filter_map comp_def)
  finally show ?thesis .
qed

text \<open>
  C9. When the sorted copy of the deck is a rearrangement of \<open>INITIAL_DECK\<close>, the fresh board has
  17 cells; each of the cells 0..15 is at its index, holds the piece of the sorted deck at
  that position, whose rank is the rank of its kind, and is unrevealed; every pair of a colour
  and a kind is on exactly one of the cells 0..15; cell 16 is revealed and empty.
\<close>

theorem C9_fresh_board:
  assumes "mset deck = mset INITIAL_DECK"
  shows "length (board (initGame deck)) = 17
     \<and> (\<forall>i < 16. index (board (initGame deck) ! i) = i
            \<and> piece (board (initGame deck) ! i) = Some (deck ! i)
            \<and> rank (deck ! i) = ANIMAL_RANKS (type (deck ! i))
            \<and> \<not> isRevealed (board (initGame deck) ! i))
     \<and> (\<forall>c k. length (filter (\<lambda>cell. \<exists>p. piece cell = Some p \<and> color p = c \<and> type p = k)
                          (take 16 (board (initGame deck)))) = 1)
     \<and> board (initGame deck) ! 16 = \<lparr>index = 16, piece = None, isRevealed = True\<rparr>"
proof -
  have len: "length deck = 16"
  proof -
    have "length deck = size (mset deck)" by simp
    also have "\<dots> = size (mset INITIAL_DECK)" by (simp only: assms)
    also have "\<dots> = 16" by (simp add: length_INITIAL_DECK)
    finally show ?thesis .
  qed
  have b: "board (initGame deck) = newBoard deck" by (simp add: initGame_def)
  have ranks: "rank (deck ! i) = ANIMAL_RANKS (type (deck ! i))" if "i < 16" for i
  proof -
    have "deck ! i \<in> set deck" using that len by simp
    then have "deck ! i \<in> set INITIAL_DECK" using mset_eq_setD [OF assms] by simp
    then show ?thesis by (rule INITIAL_DECK_ranks)
  qed
  have once: "length (filter (\<lambda>cell. \<exists>p. piece cell = Some p \<and> color p = c \<and> type p = k)
                          (take 16 (newBoard deck))) = 1" for c k
  proof -
    have "length (filter (\<lambda>p. color p = c \<and> type p = k) deck)
          = size (filter_mset (\<lambda>p. color p = c \<and> type p = k) (mset deck))"
      by (simp flip: mset_filter)
    also have "\<dots> = size (filter_mset (\<lambda>p. color p = c \<and> type p = k) (mset INITIAL_DECK))"
      by (simp only: assms)
    also have "\<dots> = length (filter (\<lambda>p. color p = c \<and> type p = k) INITIAL_DECK)"
      by (simp flip: mset_filter)
    finally show ?thesis
      using count_newBoard [OF len, of "\<lambda>p. color p = c \<and> type p = k"] INITIAL_DECK_once by simp
  qed
  have cells: "index (newBoard deck ! i) = i \<and> piece (newBoard deck ! i) = Some (deck ! i)
      \<and> \<not> isRevealed (newBoard deck ! i)" if "i < 16" for i
    using that len by (simp add: newBoard_nth elemAt_def)
  have center: "newBoard deck ! 16 = \<lparr>index = 16, piece = None, isRevealed = True\<rparr>"
    by (simp add: newBoard_nth)
  show ?thesis
    unfolding b using cells ranks once center length_newBoard by blast
qed

theorem C9_fresh_board_witness:
  "mset (rev INITIAL_DECK) = mset INITIAL_DECK
   \<and> length (board (initGame (rev INITIAL_DECK))) = 17
   \<and> piece (board (initGame (rev INITIAL_DECK)) ! 0) = Some (rev INITIAL_DECK ! 0)
   \<and> rev INITIAL_DECK ! 0 = INITIAL_DECK ! 15
   \<and> \<not> isRevealed (board (initGame (rev INITIAL_DECK)) ! 0)
   \<and> length (filter (\<lambda>cell. \<exists>p. piece cell = Some p \<and> color p = BLUE \<and> type p = RAT)
                          (take 16 (board (initGame (rev INITIAL_DECK))))) = 1
   \<and> board (initGame (rev INITIAL_DECK)) ! 16 = \<lparr>index = 16, piece = None, isRevealed = True\<rparr>"
proof -
  have m: "mset (rev INITIAL_DECK) = mset INITIAL_DECK" by simp
  have r: "rev INITIAL_DECK ! 0 = INITIAL_DECK ! 15" by (simp add: INITIAL_DECK_list)
  from C9_fresh_board [OF m] m r show ?thesis by simp
qed

section \<open>Conservation of pieces\<close>

lemma count_update:
  "i < length xs \<Longrightarrow>
   length (filter P (xs[i := x])) + (if P (xs ! i) then 1 else 0)
     = length (filter P xs) + (if P x then 1 else 0)"
proof (induction xs arbitrary: i)
  case Nil
  then show ?case by simp
next
  case (Cons y ys)
  show ?case
  proof (cases i)
    case 0
    then show ?thesis by simp
  next
    case (Suc k)
    with Cons.prems have "k < length ys" by simp
    from Cons.IH [OF this] Suc show ?thesis by simp
  qed
qed

lemma pieceCount_update:
  "i < length cells \<Longrightarrow>
   pieceCount (cells[i := c]) + (if piece (cells ! i) \<noteq> None then 1 else 0)
     = pieceCount cells + (if piece c \<noteq> None then 1 else 0)"
  unfolding pieceCount_def by (rule count_update)

lemma hd_history_commit: "event (hd (history (commit gs nb ev b))) = ev"
  by (simp add: history_commit)

lemma pieceCount_newBoard:
  assumes "length deck = 16"
  shows "pieceCount (newBoard deck) = 16"
proof -
  have split: "newBoard deck = take 16 (newBoard deck) @ [newBoard deck ! 16]"
    using Cons_nth_drop_Suc [of 16 "newBoard deck"] append_take_drop_id [of 16 "newBoard deck"]
    by (simp add: length_newBoard)
  have "pieceCount (take 16 (newBoard deck)) = length (filter (\<lambda>p. True) deck)"
    using count_newBoard [OF assms, of "\<lambda>p. True"] by (simp add: pieceCount_def)
  moreover have "piece (newBoard deck ! 16) = None" by (simp add: newBoard_nth)
  ultimately show ?thesis
    using assms by (subst split) (simp add: pieceCount_def)
qed

lemma isLegal_iff: "isLegal cells c m \<longleftrightarrow> (\<exists>ms. getValidMoves cells c = Inr ms \<and> m \<in> set ms)"
  by (simp add: isLegal_def split: sum.splits)

lemma flip_step:
  assumes wf: "wellFormed (board gs)" and f: "isFlip m"
    and app: "handleMoveWith bind gs m = Applied gs'"
  shows "wellFormed (board gs') \<and> pieceCount (board gs') = pieceCount (board gs)
         \<and> removed (event (hd (history gs'))) = 0"
proof -
  let ?j = "toIndex m"
  from app f obtain tc p where tc: "elemAt (board gs) ?j = Some tc" and p: "piece tc = Some p"
    and gs': "gs' = commit gs ((board gs)[?j := tc\<lparr>isRevealed := True\<rparr>])
                 (Flipped (color p) (type p)) (bind gs p)"
    by (auto simp: handleMoveWith_def flipBranch_def Let_def split: if_splits option.splits)
  from tc have j: "?j < 17" and tcj: "board gs ! ?j = tc"
    using wellFormed_length [OF wf] by (simp_all add: elemAt_Some)
  have "wellFormed ((board gs)[?j := tc\<lparr>isRevealed := True\<rparr>])"
    using wellFormed_index [OF wf j] tcj by (intro wellFormed_update [OF wf j]) simp
  moreover have "pieceCount ((board gs)[?j := tc\<lparr>isRevealed := True\<rparr>]) = pieceCount (board gs)"
    using pieceCount_update [of ?j "board gs" "tc\<lparr>isRevealed := True\<rparr>"] j tcj
      wellFormed_length [OF wf] by simp
  ultimately show ?thesis
    by (simp add: gs' board_commit hd_history_commit)
qed

lemma move_step:
  assumes wf: "wellFormed (board gs)" and legal: "isLegal (board gs) (turn gs) m"
    and nf: "\<not> isFlip m" and app: "handleMoveWith bind gs m = Applied gs'"
  shows "wellFormed (board gs')
         \<and> pieceCount (board gs') + removed (event (hd (history gs'))) = pieceCount (board gs)"
proof -
  let ?j = "toIndex m"
  let ?b = "board gs"
  from legal obtain ms where ms: "getValidMoves ?b (turn gs) = Inr ms" "m \<in> set ms"
    by (auto simp: isLegal_iff)
  from legal_move_facts [OF wf ms nf]
  obtain i a where src: "fromIndex m = Some i" and i: "i < 17" and j: "?j < 17" and ij: "i \<noteq> ?j"
    and a: "piece (?b ! i) = Some a"
    by auto
  have len: "length ?b = 17" using wellFormed_length [OF wf] .
  have ati: "elemAt ?b i = Some (?b ! i)" and atj: "elemAt ?b ?j = Some (?b ! ?j)"
    using i j len by (simp_all add: elemAt_def)
  have w: "winner gs = None" using handleMoveWith_Applied [OF app] by simp
  let ?X = "(?b ! ?j)\<lparr>piece := Some a\<rparr>"
  let ?Y = "(?b ! i)\<lparr>piece := None\<rparr>"
  let ?nb = "(?b[?j := ?X])[i := ?Y]"
  let ?nb' = "?nb[?j := (?nb ! ?j)\<lparr>piece := None\<rparr>]"
  have idx: "index (?b ! i) = i" "index (?b ! ?j) = ?j"
    using wellFormed_index [OF wf] i j by simp_all
  have wfnb: "wellFormed ?nb"
    by (rule wellFormed_update [OF wellFormed_update [OF wf j] i]) (simp_all add: idx)
  have nbj: "?nb ! ?j = ?X" using ij j len by simp
  have wfnb': "wellFormed ?nb'"
    by (rule wellFormed_update [OF wfnb j]) (simp add: nbj idx)
  have c1: "pieceCount (?b[?j := ?X]) + (if piece (?b ! ?j) \<noteq> None then 1 else 0)
            = pieceCount ?b + 1"
    using pieceCount_update [of ?j ?b ?X] j len by simp
  have c2: "pieceCount ?nb + 1 = pieceCount (?b[?j := ?X])"
    using pieceCount_update [of i "?b[?j := ?X]" ?Y] i ij len a by simp
  have c3: "pieceCount ?nb' + 1 = pieceCount ?nb"
    using pieceCount_update [of ?j ?nb "(?nb ! ?j)\<lparr>piece := None\<rparr>"] j len nbj by simp
  show ?thesis
  proof (cases "piece (?b ! ?j)")
    case None
    have "gs' = commit gs ?nb (Moved (type a)) (userColor gs, redPlayer gs, bluePlayer gs)"
      using app w nf src a ati atj None
      by (simp add: handleMoveWith_def moveBranch_def Let_def)
    then show ?thesis
      using wfnb c1 c2 None by (simp add: board_commit hd_history_commit)
  next
    case (Some d)
    show ?thesis
    proof (cases "rank a = rank d")
      case True
      have "gs' = commit gs ?nb' (Eliminated (type a) (type d))
                    (userColor gs, redPlayer gs, bluePlayer gs)"
        using app w nf src a ati atj Some True
        by (simp add: handleMoveWith_def moveBranch_def Let_def)
      then show ?thesis
        using wfnb' c1 c2 c3 Some by (simp add: board_commit hd_history_commit)
    next
      case False
      have "gs' = commit gs ?nb (Ate (type a) (type d))
                    (userColor gs, redPlayer gs, bluePlayer gs)"
        using app w nf src a ati atj Some False
        by (simp add: handleMoveWith_def moveBranch_def Let_def)
      then show ?thesis
        using wfnb c1 c2 Some by (simp add: board_commit hd_history_commit)
    qed
  qed
qed

lemma legalPlay_invariant:
  assumes "legalPlay bind deck gs n" and "length deck = 16"
  shows "wellFormed (board gs) \<and> pieceCount (board gs) + n = 16"
  using assms
proof (induction rule: legalPlay.induct)
  case fresh
  then show ?case
    by (simp add: initGame_def wellFormed_newBoard pieceCount_newBoard)
next
  case (action gs n m gs')
  then have wf: "wellFormed (board gs)" and cnt: "pieceCount (board gs) + n = 16" by simp_all
  show ?case
  proof (cases "isFlip m")
    case True
    from flip_step [OF wf True action.hyps(3)] cnt show ?thesis by simp
  next
    case False
    from move_step [OF wf action.hyps(2) False action.hyps(3)] cnt show ?thesis by simp
  qed
qed

text \<open>
  C7. In every state reached from a fresh game (dealt from a rearrangement of
  \<open>INITIAL_DECK\<close>) by legal actions, the pieces on the board and the pieces removed by captures
  and mutual eliminations are 16 together.
\<close>

theorem C7_piece_conservation:
  assumes "mset deck = mset INITIAL_DECK" and "legalPlay bind deck gs n"
  shows "pieceCount (board gs) + n = 16"
proof -
  have "length deck = size (mset deck)" by simp
  also have "\<dots> = size (mset INITIAL_DECK)" by (simp only: assms(1))
  also have "\<dots> = 16" by (simp add: length_INITIAL_DECK)
  finally have "length deck = 16" .
  with legalPlay_invariant [OF assms(2)] show ?thesis by simp
qed

theorem C7_piece_conservation_witness:
  "mset INITIAL_DECK = mset INITIAL_DECK
   \<and> legalPlay bindPvP INITIAL_DECK elephantsGone 2
   \<and> pieceCount (board elephantsGone) = 14
   \<and> pieceCount (board elephantsGone) + 2 = 16"
proof -
  have l1: "isLegal (board (initGame INITIAL_DECK)) (turn (initGame INITIAL_DECK))
              \<lparr>fromIndex = None, toIndex = 0, isFlip = True\<rparr>"
    by code_simp
  have l2: "isLegal (board firstFlip) (turn firstFlip) \<lparr>fromIndex = None, toIndex = 1, isFlip = True\<rparr>"
    by code_simp
  have a2: "handleMoveWith bindPvP firstFlip \<lparr>fromIndex = None, toIndex = 1, isFlip = True\<rparr>
              = Applied secondFlip"
    by code_simp
  have l3: "isLegal (board secondFlip) (turn secondFlip) \<lparr>fromIndex = Some 0, toIndex = 1, isFlip = False\<rparr>"
    by code_simp
  have a3: "handleMoveWith bindPvP secondFlip \<lparr>fromIndex = Some 0, toIndex = 1, isFlip = False\<rparr>
              = Applied elephantsGone"
    by code_simp
  have r: "removed (event (hd (history firstFlip))) = 0" "removed (event (hd (history secondFlip))) = 0"
    "removed (event (hd (history elephantsGone))) = 2"
    by code_simp+
  have p1: "legalPlay bindPvP INITIAL_DECK firstFlip 0"
    using legalPlay.action [OF legalPlay.fresh l1 firstFlip_applied] unfolding r by simp
  have p2: "legalPlay bindPvP INITIAL_DECK secondFlip 0"
    using legalPlay.action [OF p1 l2 a2] unfolding r by simp
  have p: "legalPlay bindPvP INITIAL_DECK elephantsGone 2"
    using legalPlay.action [OF p2 l3 a3] unfolding r by (simp add: numeral_2_eq_2)
  have c: "pieceCount (board elephantsGone) = 14" by code_simp
  from C7_piece_conservation [OF refl p] p c show ?thesis by simp
qed

section \<open>Validation of moves\<close>

text \<open>
  C2, as stated, fails: \<open>handleMove\<close> does not look at the valid moves. On the fresh board dealt
  in deck order, with no winner, the move from cell 0 to the Center is not among the valid
  moves of Red, and \<open>handleMove\<close> applies it: the hidden red Elephant ends on the Center and the
  turn passes to Blue.
\<close>

theorem C2_counterexample:
  "winner (initGame INITIAL_DECK) = None
   \<and> \<not> isLegal (board (initGame INITIAL_DECK)) (turn (initGame INITIAL_DECK))
         \<lparr>fromIndex = Some 0, toIndex = 16, isFlip = False\<rparr>
   \<and> handleMove (initGame INITIAL_DECK) \<lparr>fromIndex = Some 0, toIndex = 16, isFlip = False\<rparr>
       = Applied smuggled
   \<and> piece (board (initGame INITIAL_DECK) ! 16) = None
   \<and> piece (board smuggled ! 16) = Some (INITIAL_DECK ! 0)
   \<and> piece (board smuggled ! 0) = None
   \<and> turn (initGame INITIAL_DECK) = RED \<and> turn smuggled = BLUE"
  by code_simp

text \<open>
  C2, amended. The validation is in \<open>handleCellClick\<close>. With no winner and a cell selected, a
  click on a cell whose pair (selected, clicked) is not among the valid moves of the colour to
  move leaves the game state as it is: \<open>handleMove\<close> is not called, nothing is thrown, and only
  the selection changes (to the clicked cell when that is another revealed cell holding a
  piece of the colour to move, to none otherwise).
\<close>

theorem C2_illegal_pair_not_applied:
  assumes "winner (gameState app) = None"
    and "selectedIndex app = Some sel"
    and "elemAt (board (gameState app)) idx = Some cell"
    and "getValidMoves (board (gameState app)) (turn (gameState app)) = Inr validMoves"
    and "\<forall>m \<in> set validMoves. \<not> (fromIndex m = Some sel \<and> toIndex m = idx)"
  shows "handleCellClick app idx =
           Applied (app\<lparr>selectedIndex :=
             (if isRevealed cell \<and> idx \<noteq> sel
                 \<and> map_option color (piece cell) = Some (turn (gameState app))
              then Some idx else None)\<rparr>)"
proof -
  have "findMove validMoves sel idx = None"
    using assms(5) by (simp add: findMove_def find_None_iff)
  with assms(1-4) show ?thesis
    by (simp add: handleCellClick_def)
qed

theorem C2_illegal_pair_not_applied_witness:
  "winner (gameState ratSelected) = None \<and> selectedIndex ratSelected = Some 5
   \<and> elemAt (board (gameState ratSelected)) 0 = Some \<lparr>index = 0, piece = None, isRevealed = True\<rparr>
   \<and> getValidMoves (board (gameState ratSelected)) (turn (gameState ratSelected)) = Inr
        [\<lparr>fromIndex = Some 5, toIndex = 4, isFlip = False\<rparr>,
         \<lparr>fromIndex = Some 5, toIndex = 6, isFlip = False\<rparr>,
         \<lparr>fromIndex = Some 5, toIndex = 1, isFlip = False\<rparr>,
         \<lparr>fromIndex = Some 5, toIndex = 9, isFlip = False\<rparr>,
         \<lparr>fromIndex = Some 5, toIndex = 16, isFlip = False\<rparr>]
   \<and> handleCellClick ratSelected 0 = Applied (ratSelected\<lparr>selectedIndex := None\<rparr>)"
proof -
  let ?ms = "[\<lparr>fromIndex = Some 5, toIndex = 4, isFlip = False\<rparr>,
         \<lparr>fromIndex = Some 5, toIndex = 6, isFlip = False\<rparr>,
         \<lparr>fromIndex = Some 5, toIndex = 1, isFlip = False\<rparr>,
         \<lparr>fromIndex = Some 5, toIndex = 9, isFlip = False\<rparr>,
         \<lparr>fromIndex = Some 5, toIndex = 16, isFlip = False\<rparr>]"
  have w: "winner (gameState ratSelected) = None" "selectedIndex ratSelected = Some 5"
    by (simp_all add: ratSelected_def play_def)
  have c: "elemAt (board (gameState ratSelected)) 0 = Some \<lparr>index = 0, piece = None, isRevealed = True\<rparr>"
    by code_simp
  have ms: "getValidMoves (board (gameState ratSelected)) (turn (gameState ratSelected)) = Inr ?ms"
    by code_simp
  have no: "\<forall>m \<in> set ?ms. \<not> (fromIndex m = Some 5 \<and> toIndex m = 0)"
    by simp
  from C2_illegal_pair_not_applied [OF w c ms no] w c ms show ?thesis by simp
qed

section \<open>The shuffle is not uniform\<close>

lemma probability_dyadic: "\<exists>N d. probability k run x = of_nat N / 2 ^ d"
proof (induction run)
  case (Sorted y)
  show ?case
  proof (cases "x = y")
    case True
    then have "probability k (Sorted y) x = of_nat 1 / 2 ^ 0" by simp
    then show ?thesis by blast
  next
    case False
    then have "probability k (Sorted y) x = of_nat 0 / 2 ^ 0" by simp
    then show ?thesis by blast
  qed
next
  case (Compare neg zero pos)
  then obtain N1 d1 N2 d2 N3 d3 where
    p: "probability k neg x = of_nat N1 / 2 ^ d1" "probability k zero x = of_nat N2 / 2 ^ d2"
       "probability k pos x = of_nat N3 / 2 ^ d3"
    by blast
  let ?a = "2 ^ (k - 1) :: nat" and ?b = "2 ^ (k - 1) - 1 :: nat"
  let ?N = "?a * N1 * 2 ^ (d2 + d3) + N2 * 2 ^ (d1 + d3) + ?b * N3 * 2 ^ (d1 + d2)"
  have "probability k (Compare neg zero pos) x = of_nat ?N / 2 ^ (d1 + d2 + d3 + k)"
    unfolding probability.simps p
    by (simp add: field_simps power_add)
  then show ?case by blast
qed

lemma power_two_mod_three: "(2::nat) ^ d mod 3 = 1 \<or> (2::nat) ^ d mod 3 = 2"
proof (induction d)
  case 0
  show ?case by simp
next
  case (Suc d)
  have "(2::nat) ^ Suc d mod 3 = (2 * (2 ^ d mod 3)) mod 3"
    by (simp add: mod_mult_right_eq)
  with Suc show ?case by auto
qed

lemma not_three_dvd_power_two: "\<not> (3::nat) dvd 2 ^ d"
  using power_two_mod_three [of d] by (auto simp: dvd_eq_mod_eq_0)

text \<open>
  C8, uniformity. Whatever the sorting procedure does with the results of the comparator, no
  ordering of the 16 pieces comes out with probability 1/16!: the probability of an ordering
  is a fraction with a power of two as denominator, and 16! is divisible by 3. So the deal of
  \<open>initGame\<close> is not uniformly distributed over the 16! orderings.
\<close>

theorem C8_shuffle_not_uniform:
  "probability k run (order :: Piece list) \<noteq> 1 / fact (length INITIAL_DECK)"
proof
  assume "probability k run order = 1 / fact (length INITIAL_DECK)"
  then have u: "probability k run order = 1 / fact 16"
    by (simp only: length_INITIAL_DECK)
  from probability_dyadic [of k run order]
  obtain N d where "probability k run order = of_nat N / 2 ^ d"
    by auto
  with u have "(of_nat N :: rat) * fact 16 = 2 ^ d"
    by (simp add: field_simps)
  then have "(of_nat (N * fact 16) :: rat) = of_nat (2 ^ d)"
    by simp
  then have "N * fact 16 = 2 ^ d"
    by (simp only: of_nat_eq_iff)
  moreover have "(3::nat) dvd fact 16"
    by (rule dvd_fact) simp_all
  ultimately have "(3::nat) dvd 2 ^ d"
    by (metis dvd_mult)
  then show False
    by (simp add: not_three_dvd_power_two)
qed

end
